theory Spec2Isabelle
  imports
    Main
    "HOL-Library.Char_ord"
    "HOL-Library.List_Lexorder"
    "HOL-Library.Product_Lexorder"
    "HOL-Library.Multiset"
    "HOL-Library.AList"
begin

section \<open>generate\_rss.py: an RSS feed out of a directory of Markdown files\<close>

text \<open>
  A shallow embedding of \<^verbatim>\<open>src/generate_rss.py\<close>. Python's \<^verbatim>\<open>str\<close> is modelled as
  \<^typ>\<open>string\<close>, each \<^typ>\<open>char\<close> standing for a code point below 256. Exceptions are
  values of a sum type, a text stream is the text its bytes decode to (or the part of it
  that decodes), the file system is a finite tree, and what the script takes from
  its host (the local UTC offset, the clock, the \<^verbatim>\<open>datetime\<close> library and the external
  \<^verbatim>\<open>markdown\<close> program) is gathered in one record of parameters.
\<close>

subsection \<open>Dates and times\<close>

record date =
  year :: int
  month :: int
  day :: int

record time =
  hour :: int
  minute :: int
  second :: int
  microsecond :: int

text \<open>
  A \<^verbatim>\<open>datetime.datetime\<close>: a calendar date, a time of day, and the offset from UTC in
  seconds (\<open>None\<close> for a naive value). \<^verbatim>\<open>date()\<close> and \<^verbatim>\<open>time()\<close> are the first two
  fields; \<^verbatim>\<open>time()\<close> carries no offset.
\<close>

record datetime =
  the_date :: date
  the_time :: time
  tzinfo :: "int option"

definition combine :: "date \<Rightarrow> time \<Rightarrow> int \<Rightarrow> datetime" where
  "combine d t tz = \<lparr>the_date = d, the_time = t, tzinfo = Some tz\<rparr>"

subsection \<open>The host environment\<close>

text \<open>
  \<open>TZ_INFO\<close> is the module constant (the local offset, in seconds, read once at import).
  \<open>fromisoformat\<close> is \<^verbatim>\<open>datetime.datetime.fromisoformat\<close>, \<open>None\<close> where it raises
  \<^verbatim>\<open>ValueError\<close>. \<open>strftime\<close> is \<^verbatim>\<open>strftime(DATETIME_FORMAT)\<close>. \<open>markdown\<close> is the
  subprocess \<^verbatim>\<open>markdown --html4tags\<close> run with \<^verbatim>\<open>check=True\<close> on its input text: \<open>Inr\<close> its
  standard output, \<open>Inl\<close> its standard error when it exits non-zero
  (\<^verbatim>\<open>CalledProcessError\<close>). \<open>now\<close> is \<^verbatim>\<open>datetime.datetime.now()\<close>.
\<close>

record env =
  TZ_INFO :: int
  fromisoformat :: "string \<Rightarrow> datetime option"
  strftime :: "datetime \<Rightarrow> string"
  markdown :: "string \<Rightarrow> string + string"
  now :: datetime

subsection \<open>String methods\<close>

text \<open>\<^verbatim>\<open>str.isspace\<close> on one code point below 256.\<close>

definition isspace :: "char \<Rightarrow> bool" where
  "isspace c = (of_char c \<in> {9, 10, 11, 12, 13, 28, 29, 30, 31, 32, 133, 160 :: nat})"

definition startswith :: "string \<Rightarrow> string \<Rightarrow> bool" where
  "startswith s p = (take (length p) s = p)"

text \<open>\<^verbatim>\<open>s.lstrip(chars)\<close> and \<^verbatim>\<open>s.strip()\<close>.\<close>

definition lstrip :: "string \<Rightarrow> string \<Rightarrow> string" where
  "lstrip s chars = dropWhile (\<lambda>c. c \<in> set chars) s"

definition strip :: "string \<Rightarrow> string" where
  "strip s = rev (dropWhile isspace (rev (dropWhile isspace s)))"

text \<open>
  The first line of a text, up to and including its newline (the whole text when it has
  no newline), and what is left.
\<close>

fun readline :: "string \<Rightarrow> string \<times> string" where
  "readline [] = ([], [])"
| "readline (c # cs) =
     (if c = CHR 0x0A then ([c], cs)
      else (case readline cs of (l, r) \<Rightarrow> (c # l, r)))"

subsection \<open>Exceptions and text streams\<close>

text \<open>The exceptions the script raises or lets through.\<close>

datatype error = InvalidMarkdownFile string | OSError | TypeError | UnicodeDecodeError

text \<open>
  What can go wrong when a stream reads a chunk of its file: the bytes do not decode
  (\<^verbatim>\<open>UnicodeDecodeError\<close>), or the read itself fails (\<^verbatim>\<open>OSError\<close>).
\<close>

datatype fault = DecodeFault | ReadFault

fun fault_error :: "fault \<Rightarrow> error" where
  "fault_error DecodeFault = UnicodeDecodeError"
| "fault_error ReadFault = OSError"

text \<open>
  A stream opened in text mode, read from its current position. The stream reads and
  decodes its file chunk by chunk. \<open>Decodable s\<close> is a stream whose unread chunks are all
  read and decoded, to the text \<open>s\<close>. \<open>Faulty s f\<close> is a stream with a chunk ahead on which
  the fault \<open>f\<close> occurs; \<open>s\<close> is the text of the unread chunks before that one.
\<close>

datatype textio = Decodable string | Faulty string fault

text \<open>
  \<^verbatim>\<open>stream.readline()\<close>: the line and the stream after it. At the end of a decodable stream
  the line is the empty string. When no newline stands before the faulty chunk, the stream
  reads that chunk and the exception of the fault is raised.
\<close>

fun stream_readline :: "textio \<Rightarrow> error + string \<times> textio" where
  "stream_readline (Decodable s) = (case readline s of (l, r) \<Rightarrow> Inr (l, Decodable r))"
| "stream_readline (Faulty s f) =
     (if CHR 0x0A \<in> set s then (case readline s of (l, r) \<Rightarrow> Inr (l, Faulty r f))
      else Inl (fault_error f))"

text \<open>\<^verbatim>\<open>stream.read()\<close> from the start of the stream.\<close>

fun stream_read :: "textio \<Rightarrow> error + string" where
  "stream_read (Decodable s) = Inr s"
| "stream_read (Faulty s f) = Inl (fault_error f)"

subsection \<open>MarkdownFile\<close>

text \<open>
  The object keeps the stream, rewound to its start by \<^verbatim>\<open>seek(0)\<close>: the field \<open>stream\<close>
  is the stream as it was opened, which \<^verbatim>\<open>content\<close> reads later.
\<close>

record markdown_file =
  stream :: textio
  title :: string
  pub_date :: datetime

text \<open>
  \<^verbatim>\<open>MarkdownFile.__init__\<close>. The three lines are read before any check is made.
\<close>

definition MarkdownFile :: "env \<Rightarrow> textio \<Rightarrow> error + markdown_file" where
  "MarkdownFile e fp =
     (case stream_readline fp of Inl err \<Rightarrow> Inl err | Inr (title_line, fp1) \<Rightarrow>
      case stream_readline fp1 of Inl err \<Rightarrow> Inl err | Inr (_, fp2) \<Rightarrow>
      case stream_readline fp2 of Inl err \<Rightarrow> Inl err | Inr (date_line, _) \<Rightarrow>
        if \<not> startswith title_line ''# '' then Inl (InvalidMarkdownFile ''Missing title header'')
        else if \<not> startswith date_line ''## '' then Inl (InvalidMarkdownFile ''Missing date header'')
        else (case fromisoformat e (strip (lstrip date_line ''#'')) of
                None \<Rightarrow> Inl (InvalidMarkdownFile ''Date header is not a valid ISO date'')
              | Some d \<Rightarrow>
                  Inr \<lparr>stream = fp,
                       title = strip (lstrip title_line ''#''),
                       pub_date = combine (the_date d) (the_time d) (TZ_INFO e)\<rparr>))"

subsection \<open>Paths and the file system\<close>

text \<open>
  A \<^verbatim>\<open>pathlib.Path\<close> is the list of its parts. Paths compare as the lists of their parts
  do, part by part and each part code point by code point: the order of
  \<^typ>\<open>string list\<close> here. \<open>str_path\<close> is \<^verbatim>\<open>str(path)\<close>.
\<close>

type_synonym path = "string list"

fun str_path :: "path \<Rightarrow> string" where
  "str_path [] = ''.''"
| "str_path [p] = p"
| "str_path (p # q # ps) =
     (if p = ''/'' then p @ str_path (q # ps) else p @ ''/'' @ str_path (q # ps))"

text \<open>
  What the file system holds at a path: a file whose chunks are all read and decoded (the
  text they decode to), a file with a chunk on which a fault occurs (the text of the chunks
  before it, and the fault), a file on which \<^verbatim>\<open>open\<close> raises \<^verbatim>\<open>OSError\<close>, a directory with its entries in the order
  \<^verbatim>\<open>os.scandir\<close> yields them, or a directory on which \<^verbatim>\<open>os.scandir\<close> raises \<^verbatim>\<open>OSError\<close>.
\<close>

datatype fsnode =
    RegularFile string
  | FaultyFile string fault
  | UnreadableFile
  | Directory "(string \<times> fsnode) list"
  | UnreadableDirectory

fun is_dir :: "fsnode \<Rightarrow> bool" where
  "is_dir (Directory _) = True"
| "is_dir UnreadableDirectory = True"
| "is_dir _ = False"

fun scandir :: "fsnode \<Rightarrow> (string \<times> fsnode) list option" where
  "scandir (Directory entries) = Some entries"
| "scandir _ = None"

fun open_file :: "fsnode \<Rightarrow> textio option" where
  "open_file (RegularFile s) = Some (Decodable s)"
| "open_file (FaultyFile s f) = Some (Faulty s f)"
| "open_file _ = None"

subsection \<open>collect\_md\_files\<close>

text \<open>
  \<^verbatim>\<open>target = max_files if max_files else math.inf\<close>: \<open>None\<close> is \<^verbatim>\<open>math.inf\<close>, and both
  \<^verbatim>\<open>None\<close> and \<^verbatim>\<open>0\<close> are falsy. \<open>below len target\<close> is \<^verbatim>\<open>len < target\<close>.
\<close>

definition target_of :: "int option \<Rightarrow> int option" where
  "target_of max_files =
     (case max_files of None \<Rightarrow> None | Some n \<Rightarrow> if n \<noteq> 0 then Some n else None)"

definition below :: "nat \<Rightarrow> int option \<Rightarrow> bool" where
  "below len target = (case target of None \<Rightarrow> True | Some n \<Rightarrow> int len < n)"

definition skipped_message :: "path \<Rightarrow> string \<Rightarrow> string" where
  "skipped_message p msg = ''Skipped '' @ str_path p @ '': '' @ msg"

text \<open>
  The \<^verbatim>\<open>try\<close> block of the loop body: \<^verbatim>\<open>open\<close>, then the constructor. Only
  \<^verbatim>\<open>InvalidMarkdownFile\<close> is caught; the \<^verbatim>\<open>OSError\<close> of \<^verbatim>\<open>open\<close> and the exception of a
  fault met by the constructor leave the function.
\<close>

definition try_file ::
  "env \<Rightarrow> path \<Rightarrow> fsnode \<Rightarrow> (path \<times> markdown_file) list \<Rightarrow> string list
     \<Rightarrow> error + (path \<times> markdown_file) list \<times> string list"
where
  "try_file e p node md_files skipped =
     (case open_file node of
        None \<Rightarrow> Inl OSError
      | Some fp \<Rightarrow>
          (case MarkdownFile e fp of
             Inr md \<Rightarrow> Inr (md_files @ [(p, md)], skipped)
           | Inl err \<Rightarrow>
               (case err of
                  InvalidMarkdownFile msg \<Rightarrow> Inr (md_files, skipped @ [skipped_message p msg])
                | _ \<Rightarrow> Inl err)))"

text \<open>
  The state of the walk: \<^verbatim>\<open>md_files\<close>, \<^verbatim>\<open>skipped\<close> and \<^verbatim>\<open>stack\<close>. The stack holds
  each pending directory's path with what the file system holds there; its top is its
  last element.
\<close>

type_synonym walk_state =
  "(path \<times> markdown_file) list \<times> string list \<times> (path \<times> fsnode) list"

text \<open>The \<^verbatim>\<open>for dir_entry in os.scandir(current)\<close> loop, over the entries left.\<close>

fun scan_loop ::
  "env \<Rightarrow> int option \<Rightarrow> path \<Rightarrow> (string \<times> fsnode) list \<Rightarrow> walk_state \<Rightarrow> error + walk_state"
where
  "scan_loop e target current [] st = Inr st"
| "scan_loop e target current ((name, node) # rest) (md_files, skipped, stack) =
     (if is_dir node then
        scan_loop e target current rest (md_files, skipped, stack @ [(current @ [name], node)])
      else
        (case try_file e (current @ [name]) node md_files skipped of
           Inl err \<Rightarrow> Inl err
         | Inr (md_files', skipped') \<Rightarrow>
             if \<not> below (length md_files') target then Inr (md_files', skipped', stack)
             else scan_loop e target current rest (md_files', skipped', stack)))"

definition stack_size :: "(path \<times> fsnode) list \<Rightarrow> nat" where
  "stack_size stack = sum_list (map (\<lambda>(p, n). size n) stack)"

text \<open>
  The \<^verbatim>\<open>while stack and len(md_files) < target\<close> loop. It ends because every turn replaces
  a directory on the stack by directories inside it.
\<close>

function walk :: "env \<Rightarrow> int option \<Rightarrow> walk_state \<Rightarrow> error + walk_state" where
  "walk e target (md_files, skipped, stack) =
     (if stack \<noteq> [] \<and> below (length md_files) target then
        (case last stack of (current, node) \<Rightarrow>
           (case scandir node of
              None \<Rightarrow> Inl OSError
            | Some entries \<Rightarrow>
                (case scan_loop e target current entries (md_files, skipped, butlast stack) of
                   Inl err \<Rightarrow> Inl err
                 | Inr st \<Rightarrow> walk e target st)))
      else Inr (md_files, skipped, stack))"
  by pat_completeness auto
termination
proof -
  have inner: "stack_size stack' \<le> stack_size stack + sum_list (map (\<lambda>(p, n). size n) entries)"
    if "scan_loop e target current entries (md_files, skipped, stack)
          = Inr (md_files', skipped', stack')"
    for e target current entries md_files skipped stack md_files' skipped' stack'
    using that
  proof (induction entries arbitrary: md_files skipped stack)
    case Nil
    then show ?case by simp
  next
    case (Cons a entries)
    obtain name node where a: "a = (name, node)" by (cases a)
    show ?case
    proof (cases "is_dir node")
      case True
      with Cons.prems a have
        "scan_loop e target current entries (md_files, skipped, stack @ [(current @ [name], node)])
           = Inr (md_files', skipped', stack')" by simp
      from Cons.IH[OF this] show ?thesis by (simp add: a stack_size_def)
    next
      case False
      with Cons.prems a show ?thesis
        by (auto simp: stack_size_def split: sum.splits if_splits dest!: Cons.IH)
    qed
  qed
  have inside: "sum_list (map (\<lambda>(p, n). size n) entries) < size (Directory entries)"
    for entries :: "(string \<times> fsnode) list"
    by (induction entries) auto
  have turn: "stack_size k < stack_size stack"
    if "stack \<noteq> []" and "(current, node) = last stack" and "scandir node = Some entries"
      and "scan_loop e target current entries (md_files, skipped, butlast stack) = Inr (m, s, k)"
    for e target current node entries md_files skipped m s k and stack :: "(path \<times> fsnode) list"
  proof -
    from that(3) have node: "node = Directory entries" by (cases node) auto
    have "stack = butlast stack @ [(current, node)]" using that(1,2) by simp
    then have "stack_size stack = stack_size (butlast stack @ [(current, node)])" by simp
    then have "stack_size stack = stack_size (butlast stack) + size node"
      by (simp add: stack_size_def)
    with inner[OF that(4)] inside[of entries] node show ?thesis by simp
  qed
  show ?thesis
    apply (relation "measure (\<lambda>(e, target, md_files, skipped, stack). stack_size stack)")
     apply simp
    subgoal for e target md_files skipped stack x y x2 b
      by (cases b) (auto dest: turn)
    done
qed

text \<open>
  \<^verbatim>\<open>md_files.sort()\<close> on a list of (path, MarkdownFile) tuples. Tuples compare by their
  first differing component. Two tuples with equal paths differ in their second
  component, and \<^verbatim>\<open>MarkdownFile\<close> defines no \<^verbatim>\<open><\<close>: the comparison raises \<^verbatim>\<open>TypeError\<close>.
  Otherwise the paths alone decide.
\<close>

definition list_sort ::
  "(path \<times> markdown_file) list \<Rightarrow> error + (path \<times> markdown_file) list" where
  "list_sort md_files =
     (if distinct (map fst md_files) then Inr (sort_key fst md_files) else Inl TypeError)"

text \<open>
  \<^verbatim>\<open>dict(pairs)\<close>, as the list of its items in iteration order: a key seen again keeps its
  place and takes the new value.
\<close>

definition dict :: "('k \<times> 'v) list \<Rightarrow> ('k \<times> 'v) list" where
  "dict pairs = foldl (\<lambda>d (k, v). AList.update k v d) [] pairs"

text \<open>
  \<open>tree\<close> is what the file system holds at \<open>directory\<close>.
\<close>

definition collect_md_files ::
  "env \<Rightarrow> fsnode \<Rightarrow> path \<Rightarrow> int option
     \<Rightarrow> error + (path \<times> markdown_file) list \<times> string list"
where
  "collect_md_files e tree directory max_files =
     (case walk e (target_of max_files) ([], [], [(directory, tree)]) of
        Inl err \<Rightarrow> Inl err
      | Inr (md_files, skipped, stack) \<Rightarrow>
          (case list_sort md_files of
             Inl err \<Rightarrow> Inl err
           | Inr sorted_files \<Rightarrow> Inr (dict sorted_files, skipped)))"

subsection \<open>RssElementTree\<close>

text \<open>
  An \<^verbatim>\<open>xml.etree.ElementTree.Element\<close>: tag, attributes in insertion order, text, children.
\<close>

datatype element =
  Element (elem_tag: string) (elem_attrib: "(string \<times> string) list")
    (elem_text: "string option") (elem_children: "element list")

text \<open>
  \<^verbatim>\<open>ET.SubElement(parent, tag).text = s\<close> and \<^verbatim>\<open>parent.append(child)\<close>, returning the
  parent as it is afterwards.
\<close>

definition SubElement :: "element \<Rightarrow> string \<Rightarrow> string \<Rightarrow> element" where
  "SubElement parent tg s =
     Element (elem_tag parent) (elem_attrib parent) (elem_text parent)
       (elem_children parent @ [Element tg [] (Some s) []])"

definition append :: "element \<Rightarrow> element \<Rightarrow> element" where
  "append parent child =
     Element (elem_tag parent) (elem_attrib parent) (elem_text parent)
       (elem_children parent @ [child])"

text \<open>
  The tree object. Its root element is built with the channel as a sub-element and the
  channel is then appended to it once more, so the root has two child slots that are one
  and the same channel object, which \<^verbatim>\<open>self.channel\<close> names too. The record keeps the root's
  tag and attributes and the one channel; \<open>getroot\<close> reads the root with its children.
\<close>

record rss_element_tree =
  root_tag :: string
  root_attrib :: "(string \<times> string) list"
  channel :: element

definition getroot :: "rss_element_tree \<Rightarrow> element" where
  "getroot t = Element (root_tag t) (root_attrib t) None [channel t, channel t]"

definition generate_pub_date :: "env \<Rightarrow> string" where
  "generate_pub_date e =
     strftime e (combine (the_date (now e)) (the_time (now e)) (TZ_INFO e))"

text \<open>\<^verbatim>\<open>RssElementTree.__init__\<close>.\<close>

definition RssElementTree ::
  "env \<Rightarrow> string \<Rightarrow> string \<Rightarrow> string \<Rightarrow> string option \<Rightarrow> rss_element_tree" where
  "RssElementTree e ttl description url pub_date_arg =
     (let pd = (case pub_date_arg of None \<Rightarrow> generate_pub_date e | Some s \<Rightarrow> s);
          c0 = Element ''channel'' [] None [];
          c1 = SubElement c0 ''title'' ttl;
          c2 = SubElement c1 ''description'' description;
          c3 = SubElement c2 ''link'' url;
          c4 = append c3
                 (Element ''atom:link''
                    [(''href'', url @ ''feed.xml''), (''rel'', ''self''),
                     (''type'', ''application/rss+xml'')] None []);
          c5 = SubElement c4 ''pubDate'' pd;
          c6 = SubElement c5 ''lastBuildDate'' pd;
          c7 = SubElement c6 ''generator'' ''simple-site''
      in \<lparr>root_tag = ''rss'',
          root_attrib = [(''version'', ''2.0''), (''xlmns:atom'', ''http://www.w3.org/2005/Atom'')],
          channel = c7\<rparr>)"

text \<open>
  The property \<^verbatim>\<open>MarkdownFile.content\<close>: the whole stream is read and goes to the external
  program. A faulty stream raises the exception of its fault; a failure of the program is
  raised as \<^verbatim>\<open>InvalidMarkdownFile\<close>.
\<close>

definition content :: "env \<Rightarrow> markdown_file \<Rightarrow> error + string" where
  "content e md_file =
     (case stream_read (stream md_file) of
        Inl err \<Rightarrow> Inl err
      | Inr input \<Rightarrow>
          (case markdown e input of
             Inl stderr \<Rightarrow> Inl (InvalidMarkdownFile (''Could not convert to Markdown '' @ stderr))
           | Inr stdout \<Rightarrow> Inr stdout))"

text \<open>\<^verbatim>\<open>RssElementTree.append_item\<close>; an exception of \<^verbatim>\<open>content\<close> passes through.\<close>

definition append_item ::
  "env \<Rightarrow> rss_element_tree \<Rightarrow> markdown_file \<Rightarrow> error + rss_element_tree" where
  "append_item e rss_tree md_file =
     (let i0 = Element ''item'' [] None [];
          i1 = SubElement i0 ''title'' (title md_file)
      in case content e md_file of
           Inl err \<Rightarrow> Inl err
         | Inr html \<Rightarrow>
             (let i2 = SubElement i1 ''description'' html;
                  i3 = SubElement i2 ''pubDate'' (strftime e (pub_date md_file))
              in Inr (rss_tree\<lparr>channel := append (channel rss_tree) i3\<rparr>)))"

subsection \<open>main\<close>

text \<open>
  The \<^verbatim>\<open>for path, md_file in md_files.items()\<close> loop of \<^verbatim>\<open>main\<close>. Only
  \<^verbatim>\<open>InvalidMarkdownFile\<close> is caught.
\<close>

fun append_items ::
  "env \<Rightarrow> (path \<times> markdown_file) list \<Rightarrow> rss_element_tree \<times> path list \<times> string list
     \<Rightarrow> error + rss_element_tree \<times> path list \<times> string list"
where
  "append_items e [] st = Inr st"
| "append_items e ((p, md_file) # rest) (rss_tree, included_files, errors) =
     (case append_item e rss_tree md_file of
        Inr rss_tree' \<Rightarrow> append_items e rest (rss_tree', included_files @ [p], errors)
      | Inl err \<Rightarrow>
          (case err of
             InvalidMarkdownFile msg \<Rightarrow>
               append_items e rest (rss_tree, included_files, errors @ [skipped_message p msg])
           | _ \<Rightarrow> Inl err))"

definition no_files_message :: "path \<Rightarrow> string" where
  "no_files_message directory =
     ''No markdown files found in '' @ str_path directory
       @ '' (we are dumb and only check for '' @ [CHR 0x22] @ ''.md'' @ [CHR 0x22]
       @ '' file'' @ ''extensions)''"

definition main ::
  "env \<Rightarrow> fsnode \<Rightarrow> path \<Rightarrow> string \<Rightarrow> string \<Rightarrow> string \<Rightarrow> int option
     \<Rightarrow> error + rss_element_tree option \<times> path list \<times> string list"
where
  "main e tree directory ttl description url max_files =
     (case collect_md_files e tree directory max_files of
        Inl err \<Rightarrow> Inl err
      | Inr (md_files, errors) \<Rightarrow>
          if md_files = [] then Inr (None, [], [no_files_message directory])
          else
            (case append_items e md_files (RssElementTree e ttl description url None, [], errors) of
               Inl err \<Rightarrow> Inl err
             | Inr (rss_tree, included_files, errors') \<Rightarrow>
                 Inr (Some rss_tree, included_files, errors')))"

subsection \<open>Notions the properties are stated with\<close>

text \<open>
  What one opened file adds to the posts and to the skip messages: the post when the
  constructor accepts the stream, the message when it raises \<^verbatim>\<open>InvalidMarkdownFile\<close>.
\<close>

definition accepted :: "env \<Rightarrow> path \<Rightarrow> textio \<Rightarrow> (path \<times> markdown_file) list" where
  "accepted e p fp = (case MarkdownFile e fp of Inl _ \<Rightarrow> [] | Inr md \<Rightarrow> [(p, md)])"

definition refused :: "env \<Rightarrow> path \<Rightarrow> textio \<Rightarrow> string list" where
  "refused e p fp =
     (case MarkdownFile e fp of
        Inl err \<Rightarrow> (case err of InvalidMarkdownFile msg \<Rightarrow> [skipped_message p msg] | _ \<Rightarrow> [])
      | Inr _ \<Rightarrow> [])"

text \<open>
  The eligible posts under a directory: every file below it, at any depth, that \<^verbatim>\<open>open\<close>
  reads and the constructor accepts, with its path.
\<close>

fun eligible :: "env \<Rightarrow> path \<Rightarrow> fsnode \<Rightarrow> (path \<times> markdown_file) list" where
  "eligible e p (RegularFile s) = accepted e p (Decodable s)"
| "eligible e p (FaultyFile s f) = accepted e p (Faulty s f)"
| "eligible e p UnreadableFile = []"
| "eligible e p (Directory entries) =
     concat (map (\<lambda>(name, node). eligible e (p @ [name]) node) entries)"
| "eligible e p UnreadableDirectory = []"

text \<open>
  The sort key of the documentation: publication date, then title. All publication dates
  carry the same offset, so they compare as their calendar and clock readings do.
\<close>

definition reading :: "datetime \<Rightarrow> int list" where
  "reading d =
     [year (the_date d), month (the_date d), day (the_date d),
      hour (the_time d), minute (the_time d), second (the_time d), microsecond (the_time d)]"

definition date_title_key :: "path \<times> markdown_file \<Rightarrow> int list \<times> string" where
  "date_title_key item = (reading (pub_date (snd item)), title (snd item))"

text \<open>
  The skip messages due under a directory: one for every file below it that \<^verbatim>\<open>open\<close> reads
  and the constructor rejects.
\<close>

fun rejected :: "env \<Rightarrow> path \<Rightarrow> fsnode \<Rightarrow> string list" where
  "rejected e p (RegularFile s) = refused e p (Decodable s)"
| "rejected e p (FaultyFile s f) = refused e p (Faulty s f)"
| "rejected e p UnreadableFile = []"
| "rejected e p (Directory entries) =
     concat (map (\<lambda>(name, node). rejected e (p @ [name]) node) entries)"
| "rejected e p UnreadableDirectory = []"

text \<open>The posts and the skip messages still due from the directories on the stack.\<close>

definition pending :: "env \<Rightarrow> (path \<times> fsnode) list \<Rightarrow> (path \<times> markdown_file) list" where
  "pending e stack = concat (map (\<lambda>(p, node). eligible e p node) stack)"

definition pending_rejected :: "env \<Rightarrow> (path \<times> fsnode) list \<Rightarrow> string list" where
  "pending_rejected e stack = concat (map (\<lambda>(p, node). rejected e p node) stack)"

text \<open>Whether the three \<^verbatim>\<open>readline\<close> calls of the constructor pass on a stream.\<close>

definition header_reads :: "textio \<Rightarrow> bool" where
  "header_reads fp =
     (case stream_readline fp of Inl _ \<Rightarrow> False | Inr (_, fp1) \<Rightarrow>
      case stream_readline fp1 of Inl _ \<Rightarrow> False | Inr (_, fp2) \<Rightarrow>
      case stream_readline fp2 of Inl _ \<Rightarrow> False | Inr _ \<Rightarrow> True)"

text \<open>
  A tree without faults: every file in it opens, with header lines that the constructor
  can read, and every directory in it lists. A listable tree is such a tree that is a directory itself.
\<close>

fun readable :: "fsnode \<Rightarrow> bool" where
  "readable (RegularFile s) = True"
| "readable (FaultyFile s f) = header_reads (Faulty s f)"
| "readable UnreadableFile = False"
| "readable (Directory entries) = list_all (\<lambda>(name, node). readable node) entries"
| "readable UnreadableDirectory = False"

definition listable :: "fsnode \<Rightarrow> bool" where
  "listable node = (scandir node \<noteq> None \<and> readable node)"

definition all_listable :: "(path \<times> fsnode) list \<Rightarrow> bool" where
  "all_listable stack = list_all (\<lambda>(p, node). listable node) stack"

text \<open>As in a file system, no directory has two entries of one name.\<close>

fun distinct_names :: "fsnode \<Rightarrow> bool" where
  "distinct_names (Directory entries) =
     (distinct (map fst entries) \<and> list_all (\<lambda>(name, node). distinct_names node) entries)"
| "distinct_names _ = True"

text \<open>
  Whether \<^verbatim>\<open>content\<close> returns for a post, the message of the \<^verbatim>\<open>InvalidMarkdownFile\<close> it
  raises when the external program fails, and whether the stream of a post can be read in
  full.
\<close>

definition renders :: "env \<Rightarrow> markdown_file \<Rightarrow> bool" where
  "renders e md_file = (case content e md_file of Inl _ \<Rightarrow> False | Inr _ \<Rightarrow> True)"

definition failure :: "env \<Rightarrow> markdown_file \<Rightarrow> string" where
  "failure e md_file =
     (case content e md_file of
        Inl err \<Rightarrow> (case err of InvalidMarkdownFile msg \<Rightarrow> msg | _ \<Rightarrow> [])
      | Inr _ \<Rightarrow> [])"

definition reads :: "markdown_file \<Rightarrow> bool" where
  "reads md_file = (case stream_read (stream md_file) of Inl _ \<Rightarrow> False | Inr _ \<Rightarrow> True)"

text \<open>
  The \<^verbatim>\<open>item\<close> element that \<^verbatim>\<open>append_item\<close> builds of a post that renders, a tree with
  more elements at the end of its channel, and the items of a feed.
\<close>

definition item_of :: "env \<Rightarrow> markdown_file \<Rightarrow> element" where
  "item_of e md_file =
     Element ''item'' [] None
       [Element ''title'' [] (Some (title md_file)) [],
        Element ''description'' []
          (Some (case content e md_file of Inl _ \<Rightarrow> [] | Inr html \<Rightarrow> html)) [],
        Element ''pubDate'' [] (Some (strftime e (pub_date md_file))) []]"

definition with_items :: "rss_element_tree \<Rightarrow> element list \<Rightarrow> rss_element_tree" where
  "with_items t items =
     t\<lparr>channel :=
          Element (elem_tag (channel t)) (elem_attrib (channel t)) (elem_text (channel t))
            (elem_children (channel t) @ items)\<rparr>"

definition feed_items :: "rss_element_tree \<Rightarrow> element list" where
  "feed_items t = filter (\<lambda>c. elem_tag c = ''item'') (elem_children (channel t))"

text \<open>The first and the third line of a text, as the constructor reads them.\<close>

definition title_line :: "string \<Rightarrow> string" where
  "title_line txt = fst (readline txt)"

definition date_line :: "string \<Rightarrow> string" where
  "date_line txt = fst (readline (snd (readline (snd (readline txt)))))"

subsection \<open>A sample host and sample directories\<close>

definition mk_datetime :: "int \<Rightarrow> int \<Rightarrow> int \<Rightarrow> int \<Rightarrow> int \<Rightarrow> int \<Rightarrow> int option \<Rightarrow> datetime" where
  "mk_datetime y mo d h mi s tz =
     \<lparr>the_date = \<lparr>year = y, month = mo, day = d\<rparr>,
      the_time = \<lparr>hour = h, minute = mi, second = s, microsecond = 0\<rparr>,
      tzinfo = tz\<rparr>"

text \<open>
  Four values of \<^verbatim>\<open>fromisoformat\<close>; every other string is taken as one it rejects.
\<close>

definition sample_fromisoformat :: "string \<Rightarrow> datetime option" where
  "sample_fromisoformat s =
     (if s = ''2023-01-01'' then Some (mk_datetime 2023 1 1 0 0 0 None)
      else if s = ''2023-01-02'' then Some (mk_datetime 2023 1 2 0 0 0 None)
      else if s = ''2023-01-03T10:30:00'' then Some (mk_datetime 2023 1 3 10 30 0 None)
      else if s = ''2023-01-04T10:30:00+05:00'' then Some (mk_datetime 2023 1 4 10 30 0 (Some 18000))
      else None)"

text \<open>
  Five values of \<^verbatim>\<open>strftime(DATETIME_FORMAT)\<close> in the C locale, for dates that carry the
  offset of the sample host; no other value is asked for below.
\<close>

definition sample_strftime :: "datetime \<Rightarrow> string" where
  "sample_strftime d =
     (if reading d = [2023, 1, 1, 0, 0, 0, 0] then ''Sun, 01 Jan 2023 00:00:00 -0800''
      else if reading d = [2023, 1, 2, 0, 0, 0, 0] then ''Mon, 02 Jan 2023 00:00:00 -0800''
      else if reading d = [2023, 1, 3, 10, 30, 0, 0] then ''Tue, 03 Jan 2023 10:30:00 -0800''
      else if reading d = [2023, 1, 4, 10, 30, 0, 0] then ''Wed, 04 Jan 2023 10:30:00 -0800''
      else if reading d = [2023, 1, 5, 12, 0, 0, 0] then ''Thu, 05 Jan 2023 12:00:00 -0800''
      else [])"

text \<open>
  A host in a zone eight hours behind UTC, at noon of 5 January 2023, whose \<^verbatim>\<open>markdown\<close>
  fails on any text that contains a NUL character and wraps any other text in a paragraph.
\<close>

definition sample_env :: env where
  "sample_env =
     \<lparr>TZ_INFO = - 28800,
      fromisoformat = sample_fromisoformat,
      strftime = sample_strftime,
      markdown = (\<lambda>s. if CHR 0x00 \<in> set s then Inl ''bad input'' else Inr (''<p>'' @ s @ ''</p>'')),
      now = mk_datetime 2023 1 5 12 0 0 None\<rparr>"

definition alpha_text :: string where
  "alpha_text = ''# Alpha'' @ [CHR 0x0A, CHR 0x0A] @ ''## 2023-01-02'' @ [CHR 0x0A] @ ''Body A''"

definition beta_text :: string where
  "beta_text = ''# Beta'' @ [CHR 0x0A, CHR 0x0A] @ ''## 2023-01-01'' @ [CHR 0x0A] @ ''Body B''"

definition untitled_text :: string where
  "untitled_text = ''# '' @ [CHR 0x0A, CHR 0x0A] @ ''## 2023-01-01'' @ [CHR 0x0A]"

definition offset_text :: string where
  "offset_text = ''# Gamma'' @ [CHR 0x0A, CHR 0x0A] @ ''## 2023-01-04T10:30:00+05:00'' @ [CHR 0x0A]"

definition nul_text :: string where
  "nul_text = ''# Delta'' @ [CHR 0x0A, CHR 0x0A] @ ''## 2023-01-03T10:30:00'' @ [CHR 0x0A, CHR 0x00]"

definition undated_text :: string where
  "undated_text = ''# Epsilon'' @ [CHR 0x0A] @ ''no date here''"

definition plain_text :: string where
  "plain_text = ''Just a note'' @ [CHR 0x0A]"

text \<open>The posts the constructor makes of the sample texts on the sample host.\<close>

definition alpha_post :: markdown_file where
  "alpha_post = \<lparr>stream = Decodable alpha_text, title = ''Alpha'',
                  pub_date = mk_datetime 2023 1 2 0 0 0 (Some (- 28800))\<rparr>"

definition beta_post :: markdown_file where
  "beta_post = \<lparr>stream = Decodable beta_text, title = ''Beta'',
                 pub_date = mk_datetime 2023 1 1 0 0 0 (Some (- 28800))\<rparr>"

definition gamma_post :: markdown_file where
  "gamma_post = \<lparr>stream = Decodable offset_text, title = ''Gamma'',
                  pub_date = mk_datetime 2023 1 4 10 30 0 (Some (- 28800))\<rparr>"

definition delta_post :: markdown_file where
  "delta_post = \<lparr>stream = Decodable nul_text, title = ''Delta'',
                  pub_date = mk_datetime 2023 1 3 10 30 0 (Some (- 28800))\<rparr>"

definition blog_tree :: fsnode where
  "blog_tree = Directory [(''a.md'', RegularFile alpha_text), (''b.md'', RegularFile beta_text)]"

definition nested_tree :: fsnode where
  "nested_tree =
     Directory
       [(''sub'', Directory [(''c.md'', RegularFile offset_text), (''d.txt'', RegularFile undated_text)]),
        (''a.md'', RegularFile alpha_text),
        (''b.md'', RegularFile beta_text)]"

definition locked_tree :: fsnode where
  "locked_tree = Directory [(''a.md'', UnreadableFile), (''b.md'', RegularFile beta_text)]"

definition nul_tree :: fsnode where
  "nul_tree = Directory [(''a.md'', RegularFile nul_text), (''b.md'', RegularFile beta_text)]"

definition notes_tree :: fsnode where
  "notes_tree = Directory [(''notes.txt'', RegularFile undated_text)]"

text \<open>
  Two directories with a file that does not decode: in the first its first chunk already
  fails; in the second the chunks that hold the text of the Alpha post decode and a later
  chunk fails.
\<close>

definition garbled_tree :: fsnode where
  "garbled_tree =
     Directory [(''a.md'', FaultyFile [] DecodeFault), (''b.md'', RegularFile beta_text)]"

definition truncated_tree :: fsnode where
  "truncated_tree =
     Directory [(''a.md'', FaultyFile alpha_text DecodeFault), (''b.md'', RegularFile beta_text)]"

definition truncated_post :: markdown_file where
  "truncated_post = \<lparr>stream = Faulty alpha_text DecodeFault, title = ''Alpha'',
                      pub_date = mk_datetime 2023 1 2 0 0 0 (Some (- 28800))\<rparr>"

text \<open>The feed that \<^verbatim>\<open>main\<close> builds of the sample blog on the sample host.\<close>

definition blog_feed :: rss_element_tree where
  "blog_feed =
     \<lparr>root_tag = ''rss'',
      root_attrib = [(''version'', ''2.0''), (''xlmns:atom'', ''http://www.w3.org/2005/Atom'')],
      channel =
        Element ''channel'' [] None
          [Element ''title'' [] (Some ''T'') [],
           Element ''description'' [] (Some ''D'') [],
           Element ''link'' [] (Some ''https://x/'') [],
           Element ''atom:link''
             [(''href'', ''https://x/feed.xml''), (''rel'', ''self''),
              (''type'', ''application/rss+xml'')] None [],
           Element ''pubDate'' [] (Some ''Thu, 05 Jan 2023 12:00:00 -0800'') [],
           Element ''lastBuildDate'' [] (Some ''Thu, 05 Jan 2023 12:00:00 -0800'') [],
           Element ''generator'' [] (Some ''simple-site'') [],
           Element ''item'' [] None
             [Element ''title'' [] (Some ''Alpha'') [],
              Element ''description'' [] (Some (''<p>'' @ alpha_text @ ''</p>'')) [],
              Element ''pubDate'' [] (Some ''Mon, 02 Jan 2023 00:00:00 -0800'') []],
           Element ''item'' [] None
             [Element ''title'' [] (Some ''Beta'') [],
              Element ''description'' [] (Some (''<p>'' @ beta_text @ ''</p>'')) [],
              Element ''pubDate'' [] (Some ''Sun, 01 Jan 2023 00:00:00 -0800'') []]]\<rparr>"

section \<open>Properties of the constructor\<close>

lemma MarkdownFile_lines:
  "MarkdownFile e (Decodable txt) =
     (if \<not> startswith (title_line txt) ''# ''
        then Inl (InvalidMarkdownFile ''Missing title header'')
      else if \<not> startswith (date_line txt) ''## ''
        then Inl (InvalidMarkdownFile ''Missing date header'')
      else (case fromisoformat e (strip (lstrip (date_line txt) ''#'')) of
              None \<Rightarrow> Inl (InvalidMarkdownFile ''Date header is not a valid ISO date'')
            | Some d \<Rightarrow>
                Inr \<lparr>stream = Decodable txt,
                     title = strip (lstrip (title_line txt) ''#''),
                     pub_date = combine (the_date d) (the_time d) (TZ_INFO e)\<rparr>))"
  unfolding MarkdownFile_def title_line_def date_line_def
  by (auto split: prod.splits option.splits)

lemma fault_error_cases: "fault_error f = OSError \<or> fault_error f = UnicodeDecodeError"
  by (cases f) simp_all

lemma stream_readline_error:
  "stream_readline fp = Inl err \<Longrightarrow> err = OSError \<or> err = UnicodeDecodeError"
  using fault_error_cases by (cases fp) (auto split: prod.splits if_splits)

lemma header_reads_Decodable: "header_reads (Decodable s)"
  by (simp add: header_reads_def split: prod.splits)

lemma MarkdownFile_error:
  "MarkdownFile e fp = Inl err
   \<Longrightarrow> (\<exists>msg. err = InvalidMarkdownFile msg) \<or> err = OSError \<or> err = UnicodeDecodeError"
  unfolding MarkdownFile_def
  by (auto split: sum.splits prod.splits option.splits if_splits dest: stream_readline_error)

lemma MarkdownFile_faulty:
  "(MarkdownFile e fp = Inl OSError \<or> MarkdownFile e fp = Inl UnicodeDecodeError)
   \<longleftrightarrow> \<not> header_reads fp"
proof
  assume "MarkdownFile e fp = Inl OSError \<or> MarkdownFile e fp = Inl UnicodeDecodeError"
  then show "\<not> header_reads fp"
    unfolding MarkdownFile_def header_reads_def
    by (auto split: sum.splits prod.splits option.splits if_splits)
next
  assume "\<not> header_reads fp"
  then show "MarkdownFile e fp = Inl OSError \<or> MarkdownFile e fp = Inl UnicodeDecodeError"
    unfolding MarkdownFile_def header_reads_def
    by (auto split: sum.splits prod.splits dest: stream_readline_error)
qed

lemma dropWhile_all: "(\<forall>x \<in> set (dropWhile P s). P x) \<longleftrightarrow> (\<forall>x \<in> set s. P x)"
  by (induction s) auto

lemma strip_empty_iff: "strip s = [] \<longleftrightarrow> (\<forall>c \<in> set s. isspace c)"
  by (simp add: strip_def dropWhile_eq_Nil_conv dropWhile_all)

lemma alpha_eval:
  "MarkdownFile sample_env (Decodable alpha_text) =
     Inr \<lparr>stream = Decodable alpha_text, title = ''Alpha'',
          pub_date = mk_datetime 2023 1 2 0 0 0 (Some (- 28800))\<rparr>"
  by code_simp

text \<open>
  C5, as the code has it. The constructor checks the marker \<^verbatim>\<open>"# "\<close> and nothing more:
  when it succeeds, the first line starts with the marker and the title is that line
  without its leading \<^verbatim>\<open>#\<close> characters and its surrounding whitespace, which is the empty
  string exactly when nothing but whitespace follows the leading \<^verbatim>\<open>#\<close> characters. A first
  line that does not start with the marker makes the constructor raise
  \<^verbatim>\<open>InvalidMarkdownFile("Missing title header")\<close>.
\<close>

theorem title_of_parsed_file:
  "(\<not> startswith (title_line txt) ''# ''
      \<longrightarrow> MarkdownFile e (Decodable txt) = Inl (InvalidMarkdownFile ''Missing title header''))
   \<and> (MarkdownFile e (Decodable txt) = Inr md \<longrightarrow>
        startswith (title_line txt) ''# ''
        \<and> title md = strip (lstrip (title_line txt) ''#'')
        \<and> (title md = [] \<longleftrightarrow> (\<forall>c \<in> set (lstrip (title_line txt) ''#''). isspace c)))"
  by (auto simp: MarkdownFile_lines strip_empty_iff split: if_splits option.splits)

theorem title_of_parsed_file_witness:
  "(\<not> startswith (title_line plain_text) ''# ''
      \<and> MarkdownFile sample_env (Decodable plain_text)
          = Inl (InvalidMarkdownFile ''Missing title header''))
   \<and> (MarkdownFile sample_env (Decodable alpha_text) =
         Inr \<lparr>stream = Decodable alpha_text, title = ''Alpha'',
              pub_date = mk_datetime 2023 1 2 0 0 0 (Some (- 28800))\<rparr>
      \<and> startswith (title_line alpha_text) ''# ''
      \<and> strip (lstrip (title_line alpha_text) ''#'') = ''Alpha''
      \<and> \<not> (\<forall>c \<in> set (lstrip (title_line alpha_text) ''#''). isspace c))"
proof -
  have no_marker: "\<not> startswith (title_line plain_text) ''# ''"
    by code_simp
  have raised: "MarkdownFile sample_env (Decodable plain_text)
      = Inl (InvalidMarkdownFile ''Missing title header'')"
    using title_of_parsed_file [of plain_text sample_env] no_marker by blast
  let ?md = "\<lparr>stream = Decodable alpha_text, title = ''Alpha'',
               pub_date = mk_datetime 2023 1 2 0 0 0 (Some (- 28800))\<rparr>"
  have parsed: "startswith (title_line alpha_text) ''# ''
      \<and> title ?md = strip (lstrip (title_line alpha_text) ''#'')
      \<and> (title ?md = [] \<longleftrightarrow> (\<forall>c \<in> set (lstrip (title_line alpha_text) ''#''). isspace c))"
    using title_of_parsed_file [of alpha_text sample_env ?md] alpha_eval by blast
  from no_marker raised parsed alpha_eval show ?thesis by simp
qed

text \<open>
  C5 as the specification states it fails: a first line that is the marker alone passes
  the check, and the post is built with the empty title.
\<close>

theorem empty_title_counterexample:
  "MarkdownFile sample_env (Decodable untitled_text) =
     Inr \<lparr>stream = Decodable untitled_text, title = [],
          pub_date = mk_datetime 2023 1 1 0 0 0 (Some (- 28800))\<rparr>"
  by code_simp

text \<open>
  C10. When both markers are present and \<^verbatim>\<open>fromisoformat\<close> reads the date header as a
  value \<open>d\<close> that carries a UTC offset of its own, the constructor succeeds, and the
  publication date has the calendar date and the time of day of \<open>d\<close> with the local offset
  \<open>TZ_INFO\<close> in place of the written one.
\<close>

theorem pub_date_takes_local_offset:
  assumes "startswith (title_line txt) ''# ''" and "startswith (date_line txt) ''## ''"
    and "fromisoformat e (strip (lstrip (date_line txt) ''#'')) = Some d"
    and "tzinfo d = Some off"
  shows "MarkdownFile e (Decodable txt) =
           Inr \<lparr>stream = Decodable txt, title = strip (lstrip (title_line txt) ''#''),
                pub_date = \<lparr>the_date = the_date d, the_time = the_time d,
                            tzinfo = Some (TZ_INFO e)\<rparr>\<rparr>"
  using assms by (simp add: MarkdownFile_lines combine_def)

theorem pub_date_takes_local_offset_witness:
  "startswith (title_line offset_text) ''# ''
   \<and> startswith (date_line offset_text) ''## ''
   \<and> fromisoformat sample_env (strip (lstrip (date_line offset_text) ''#''))
       = Some (mk_datetime 2023 1 4 10 30 0 (Some 18000))
   \<and> tzinfo (mk_datetime 2023 1 4 10 30 0 (Some 18000)) = Some 18000
   \<and> MarkdownFile sample_env (Decodable offset_text) =
       Inr \<lparr>stream = Decodable offset_text, title = ''Gamma'',
            pub_date = mk_datetime 2023 1 4 10 30 0 (Some (- 28800))\<rparr>"
proof -
  let ?d = "mk_datetime 2023 1 4 10 30 0 (Some 18000)"
  have h1: "startswith (title_line offset_text) ''# ''" by code_simp
  have h2: "startswith (date_line offset_text) ''## ''" by code_simp
  have h3: "fromisoformat sample_env (strip (lstrip (date_line offset_text) ''#'')) = Some ?d"
    by code_simp
  have h4: "tzinfo ?d = Some 18000" by (simp add: mk_datetime_def)
  have t: "strip (lstrip (title_line offset_text) ''#'') = ''Gamma''" by code_simp
  have tz: "TZ_INFO sample_env = - 28800" by (simp add: sample_env_def)
  from pub_date_takes_local_offset [OF h1 h2 h3 h4] h1 h2 h3 h4 show ?thesis
    by (simp add: t tz mk_datetime_def)
qed

section \<open>Properties of the collector\<close>

declare walk.simps [simp del]

lemma dict_snoc:
  "k \<notin> fst ` set d \<Longrightarrow> AList.update k v d = d @ [(k, v)]"
  by (induction d) auto

lemma dict_distinct: "distinct (map fst pairs) \<Longrightarrow> dict pairs = pairs"
proof (induction pairs rule: rev_induct)
  case Nil
  then show ?case by (simp add: dict_def)
next
  case (snoc x xs)
  obtain k v where x: "x = (k, v)" by (cases x)
  from snoc have "dict xs = xs" and "k \<notin> fst ` set xs" by (auto simp: x)
  then show ?case by (simp add: dict_def x dict_snoc)
qed

lemma distinct_fst_sort_key:
  "distinct (map fst (sort_key fst xs)) = distinct (map fst xs)"
proof -
  have "mset (map fst (sort_key fst xs)) = mset (map fst xs)" by simp
  then show ?thesis by (rule mset_eq_imp_distinct_iff)
qed

lemma collect_Inr:
  assumes "collect_md_files e tree directory max_files = Inr (files, skipped)"
  obtains md_files stack where
    "walk e (target_of max_files) ([], [], [(directory, tree)]) = Inr (md_files, skipped, stack)"
    "distinct (map fst md_files)" "files = sort_key fst md_files"
  using assms
  by (auto simp: collect_md_files_def list_sort_def dict_distinct distinct_fst_sort_key
      split: sum.splits if_splits)

lemma try_file_length:
  "try_file e p node md_files skipped = Inr (md_files', skipped')
   \<Longrightarrow> length md_files' \<le> Suc (length md_files)"
  by (auto simp: try_file_def split: option.splits sum.splits error.splits)

lemma scan_loop_bound:
  "below (length md_files) (Some n)
   \<Longrightarrow> scan_loop e (Some n) current entries (md_files, skipped, stack) = Inr (md_files', skipped', stack')
   \<Longrightarrow> int (length md_files') \<le> n"
proof (induction entries arbitrary: md_files skipped stack)
  case Nil
  then show ?case by (simp add: below_def)
next
  case (Cons a entries)
  obtain name node where a: "a = (name, node)" by (cases a)
  show ?case
  proof (cases "is_dir node")
    case True
    with Cons.prems a show ?thesis by (auto dest: Cons.IH)
  next
    case False
    with Cons.prems(2) a obtain m s where
      t: "try_file e (current @ [name]) node md_files skipped = Inr (m, s)"
      by (auto split: sum.splits)
    from try_file_length[OF t] Cons.prems(1) have le: "int (length m) \<le> n"
      by (simp add: below_def)
    show ?thesis
    proof (cases "below (length m) (Some n)")
      case True
      with Cons.prems(2) a False t have
        "scan_loop e (Some n) current entries (m, s, stack) = Inr (md_files', skipped', stack')"
        by simp
      from Cons.IH[OF True this] show ?thesis .
    next
      case b: False
      with Cons.prems(2) a False t have "md_files' = m" by simp
      with le show ?thesis by simp
    qed
  qed
qed

lemma walk_bound:
  "int (length md_files) \<le> n
   \<Longrightarrow> walk e (Some n) (md_files, skipped, stack) = Inr (md_files', skipped', stack')
   \<Longrightarrow> int (length md_files') \<le> n"
proof (induction e "Some n" "(md_files, skipped, stack)" arbitrary: md_files skipped stack rule: walk.induct)
  case (1 e md_files skipped stack)
  show ?case
  proof (cases "stack \<noteq> [] \<and> below (length md_files) (Some n)")
    case False
    with "1.prems" show ?thesis by (simp add: walk.simps)
  next
    case True
    obtain current node where l: "last stack = (current, node)" by (cases "last stack")
    from True "1.prems"(2) l obtain entries where sc: "scandir node = Some entries"
      by (auto simp: walk.simps[of _ _ md_files] split: option.splits)
    from True "1.prems"(2) l sc obtain m s k where
      sl: "scan_loop e (Some n) current entries (md_files, skipped, butlast stack) = Inr (m, s, k)"
      and w: "walk e (Some n) (m, s, k) = Inr (md_files', skipped', stack')"
      by (auto simp: walk.simps[of _ _ md_files] split: sum.splits)
    from True sl have "int (length m) \<le> n" by (auto dest: scan_loop_bound)
    from "1.hyps"[OF True l[symmetric] sc sl this w] show ?thesis .
  qed
qed

lemma pending_snoc: "pending e (stack @ [(p, node)]) = pending e stack @ eligible e p node"
  by (simp add: pending_def)

lemma try_file_all:
  "try_file e p node md_files skipped = Inr (md_files', skipped')
   \<Longrightarrow> \<not> is_dir node \<Longrightarrow> md_files' = md_files @ eligible e p node"
  by (cases node) (auto simp: try_file_def accepted_def split: sum.splits error.splits)

lemma scan_loop_all:
  "scan_loop e None current entries (md_files, skipped, stack) = Inr (md_files', skipped', stack')
   \<Longrightarrow> mset md_files' + mset (pending e stack')
       = mset md_files + mset (pending e stack)
         + mset (concat (map (\<lambda>(name, node). eligible e (current @ [name]) node) entries))"
proof (induction entries arbitrary: md_files skipped stack)
  case Nil
  then show ?case by simp
next
  case (Cons a entries)
  obtain name node where a: "a = (name, node)" by (cases a)
  show ?case
  proof (cases "is_dir node")
    case True
    with Cons.prems a have
      "scan_loop e None current entries (md_files, skipped, stack @ [(current @ [name], node)])
         = Inr (md_files', skipped', stack')" by simp
    from Cons.IH[OF this] show ?thesis by (simp add: a pending_snoc)
  next
    case False
    with Cons.prems a obtain m s where
      t: "try_file e (current @ [name]) node md_files skipped = Inr (m, s)"
      and r: "scan_loop e None current entries (m, s, stack) = Inr (md_files', skipped', stack')"
      by (auto simp: below_def split: sum.splits)
    from try_file_all[OF t False] Cons.IH[OF r] show ?thesis by (simp add: a)
  qed
qed

lemma walk_all:
  "walk e None (md_files, skipped, stack) = Inr (md_files', skipped', stack')
   \<Longrightarrow> mset md_files' = mset md_files + mset (pending e stack)"
proof (induction e "None :: int option" "(md_files, skipped, stack)"
    arbitrary: md_files skipped stack rule: walk.induct)
  case (1 e md_files skipped stack)
  show ?case
  proof (cases "stack = []")
    case True
    with "1.prems" show ?thesis by (simp add: walk.simps pending_def)
  next
    case False
    then have c: "stack \<noteq> [] \<and> below (length md_files) None" by (simp add: below_def)
    obtain current node where l: "last stack = (current, node)" by (cases "last stack")
    from c "1.prems" l obtain entries where sc: "scandir node = Some entries"
      by (auto simp: walk.simps[of _ _ md_files] split: option.splits)
    from c "1.prems" l sc obtain m s k where
      sl: "scan_loop e None current entries (md_files, skipped, butlast stack) = Inr (m, s, k)"
      and w: "walk e None (m, s, k) = Inr (md_files', skipped', stack')"
      by (auto simp: walk.simps[of _ _ md_files] split: sum.splits)
    from sc have node: "node = Directory entries" by (cases node) auto
    from False l have "stack = butlast stack @ [(current, node)]" by (metis append_butlast_last_id)
    then have "pending e stack = pending e (butlast stack) @ eligible e current node"
      by (metis pending_snoc)
    with node have p: "mset (pending e stack) = mset (pending e (butlast stack))
        + mset (concat (map (\<lambda>(name, node). eligible e (current @ [name]) node) entries))"
      by simp
    from "1.hyps"[OF c l[symmetric] sc sl w] scan_loop_all[OF sl] p show ?thesis by simp
  qed
qed

lemma collect_every_eligible:
  assumes "collect_md_files e tree directory max_files = Inr (files, skipped)"
    and "target_of max_files = None"
  shows "mset files = mset (eligible e directory tree)"
proof -
  from assms(1) obtain md_files stack where
    w: "walk e (target_of max_files) ([], [], [(directory, tree)]) = Inr (md_files, skipped, stack)"
    and f: "files = sort_key fst md_files"
    by (rule collect_Inr)
  from w assms(2) have "mset md_files = mset (pending e [(directory, tree)])"
    by (auto dest: walk_all)
  with f show ?thesis by (simp add: pending_def)
qed


lemma collect_at_most:
  assumes "collect_md_files e tree directory (Some n) = Inr (files, skipped)" and "0 < n"
  shows "int (length files) \<le> n"
proof -
  from assms(1) obtain md_files stack where
    w: "walk e (target_of (Some n)) ([], [], [(directory, tree)]) = Inr (md_files, skipped, stack)"
    and f: "files = sort_key fst md_files"
    by (rule collect_Inr)
  from assms(2) have "target_of (Some n) = Some n" by (simp add: target_of_def)
  with w assms(2) have "int (length md_files) \<le> n" by (auto dest!: walk_bound[rotated])
  with f show ?thesis by simp
qed

lemma all_listable_snoc:
  "all_listable (stack @ [(p, node)]) \<longleftrightarrow> all_listable stack \<and> listable node"
  by (simp add: all_listable_def)

lemma readable_dir_listable: "is_dir node \<Longrightarrow> listable node = readable node"
  by (cases node) (auto simp: listable_def)

lemma try_stream_returns:
  assumes "header_reads fp"
  shows "\<exists>m s. (case MarkdownFile e fp of
            Inr md \<Rightarrow> Inr (md_files @ [(p, md)], skipped)
          | Inl err \<Rightarrow>
              (case err of
                 InvalidMarkdownFile msg \<Rightarrow> Inr (md_files, skipped @ [skipped_message p msg])
               | _ \<Rightarrow> Inl err)) = (Inr (m, s) :: error + _)"
proof (cases "MarkdownFile e fp")
  case (Inl err)
  with assms have "err \<noteq> UnicodeDecodeError" and "err \<noteq> OSError"
    using MarkdownFile_faulty by blast+
  with MarkdownFile_error[OF Inl] obtain msg where "err = InvalidMarkdownFile msg" by blast
  with Inl show ?thesis by simp
next
  case (Inr md)
  then show ?thesis by simp
qed

lemma try_file_returns:
  "\<not> is_dir node \<Longrightarrow> readable node \<Longrightarrow> \<exists>m s. try_file e p node md_files skipped = Inr (m, s)"
proof (cases node)
  case (RegularFile s)
  with try_stream_returns[OF header_reads_Decodable,
      where e = e and md_files = md_files and p = p and skipped = skipped]
  show ?thesis by (simp add: try_file_def)
next
  case (FaultyFile s f)
  assume "readable node"
  with FaultyFile have "header_reads (Faulty s f)" by simp
  from try_stream_returns[OF this,
      where e = e and md_files = md_files and p = p and skipped = skipped] FaultyFile
  show ?thesis by (simp add: try_file_def)
qed simp_all

lemma scan_loop_returns:
  "list_all (\<lambda>(name, node). readable node) entries \<Longrightarrow> all_listable stack
   \<Longrightarrow> \<exists>m s k. scan_loop e target current entries (md_files, skipped, stack) = Inr (m, s, k)
         \<and> all_listable k"
proof (induction entries arbitrary: md_files skipped stack)
  case Nil
  then show ?case by simp
next
  case (Cons a entries)
  obtain name node where a: "a = (name, node)" by (cases a)
  from Cons.prems a have rn: "readable node"
    and re: "list_all (\<lambda>(name, node). readable node) entries" by auto
  show ?case
  proof (cases "is_dir node")
    case True
    with rn Cons.prems(2) have "all_listable (stack @ [(current @ [name], node)])"
      by (simp add: all_listable_snoc readable_dir_listable)
    from Cons.IH[OF re this] True a show ?thesis by simp
  next
    case False
    from try_file_returns[OF False rn] obtain m s where
      t: "try_file e (current @ [name]) node md_files skipped = Inr (m, s)" by blast
    from Cons.IH[OF re Cons.prems(2)] obtain m' s' k' where
      "scan_loop e target current entries (m, s, stack) = Inr (m', s', k')" "all_listable k'"
      by blast
    with False a t Cons.prems(2) show ?thesis by simp
  qed
qed

lemma walk_returns:
  "all_listable stack \<Longrightarrow> \<exists>r. walk e target (md_files, skipped, stack) = Inr r"
proof (induction e target "(md_files, skipped, stack)"
    arbitrary: md_files skipped stack rule: walk.induct)
  case (1 e target md_files skipped stack)
  show ?case
  proof (cases "stack \<noteq> [] \<and> below (length md_files) target")
    case False
    then show ?thesis by (auto simp: walk.simps)
  next
    case True
    obtain current node where l: "last stack = (current, node)" by (cases "last stack")
    from True l have st: "stack = butlast stack @ [(current, node)]"
      by (metis append_butlast_last_id)
    with "1.prems" have bl: "all_listable (butlast stack)" and ln: "listable node"
      by (metis all_listable_snoc)+
    from ln obtain entries where sc: "scandir node = Some entries"
      and re: "list_all (\<lambda>(name, node). readable node) entries"
      by (cases node) (auto simp: listable_def)
    from scan_loop_returns[OF re bl] obtain m s k where
      sl: "scan_loop e target current entries (md_files, skipped, butlast stack) = Inr (m, s, k)"
      and k: "all_listable k" by blast
    from "1.hyps"[OF True l[symmetric] sc sl k] obtain r where "walk e target (m, s, k) = Inr r"
      by blast
    with True l sc sl show ?thesis by (cases r) (simp add: walk.simps[of _ _ md_files])
  qed
qed

lemma try_file_sub:
  "try_file e p node md_files skipped = Inr (m, s) \<Longrightarrow> \<not> is_dir node
   \<Longrightarrow> m = md_files @ eligible e p node \<and> s = skipped @ rejected e p node"
  by (cases node)
     (auto simp: try_file_def accepted_def refused_def split: sum.splits error.splits)

lemma scan_loop_sub:
  "scan_loop e target current entries (md_files, skipped, stack) = Inr (m, s, k)
   \<Longrightarrow> mset m + mset (pending e k)
       \<subseteq># mset md_files + mset (pending e stack)
         + mset (concat (map (\<lambda>(name, node). eligible e (current @ [name]) node) entries))"
proof (induction entries arbitrary: md_files skipped stack)
  case Nil
  then show ?case by simp
next
  case (Cons a entries)
  obtain name node where a: "a = (name, node)" by (cases a)
  show ?case
  proof (cases "is_dir node")
    case True
    with Cons.prems a have
      "scan_loop e target current entries (md_files, skipped, stack @ [(current @ [name], node)])
         = Inr (m, s, k)" by simp
    from Cons.IH[OF this] show ?thesis by (simp add: a pending_snoc ac_simps)
  next
    case False
    with Cons.prems a obtain m1 s1 where
      t: "try_file e (current @ [name]) node md_files skipped = Inr (m1, s1)"
      by (auto split: sum.splits)
    from try_file_sub[OF t False] have m1: "m1 = md_files @ eligible e (current @ [name]) node"
      by simp
    show ?thesis
    proof (cases "below (length m1) target")
      case True
      with Cons.prems a False t have
        "scan_loop e target current entries (m1, s1, stack) = Inr (m, s, k)" by simp
      from Cons.IH[OF this] show ?thesis by (simp add: a m1 ac_simps)
    next
      case b: False
      with Cons.prems a False t have "m = m1" "k = stack" by simp_all
      then show ?thesis by (simp add: a m1)
    qed
  qed
qed

lemma walk_sub:
  "walk e target (md_files, skipped, stack) = Inr (m, s, k)
   \<Longrightarrow> mset m \<subseteq># mset md_files + mset (pending e stack)"
proof (induction e target "(md_files, skipped, stack)"
    arbitrary: md_files skipped stack rule: walk.induct)
  case (1 e target md_files skipped stack)
  show ?case
  proof (cases "stack \<noteq> [] \<and> below (length md_files) target")
    case False
    with "1.prems" show ?thesis by (auto simp: walk.simps)
  next
    case True
    obtain current node where l: "last stack = (current, node)" by (cases "last stack")
    from True "1.prems" l obtain entries where sc: "scandir node = Some entries"
      by (auto simp: walk.simps[of _ _ md_files] split: option.splits)
    from True "1.prems" l sc obtain m1 s1 k1 where
      sl: "scan_loop e target current entries (md_files, skipped, butlast stack) = Inr (m1, s1, k1)"
      and w: "walk e target (m1, s1, k1) = Inr (m, s, k)"
      by (auto simp: walk.simps[of _ _ md_files] split: sum.splits)
    from sc have node: "node = Directory entries" by (cases node) auto
    from True l have "stack = butlast stack @ [(current, node)]" by (metis append_butlast_last_id)
    then have "pending e stack = pending e (butlast stack) @ eligible e current node"
      by (metis pending_snoc)
    with node have p: "mset (pending e stack) = mset (pending e (butlast stack))
        + mset (concat (map (\<lambda>(name, node). eligible e (current @ [name]) node) entries))"
      by simp
    from "1.hyps"[OF True l[symmetric] sc sl w] have "mset m \<subseteq># mset m1 + mset (pending e k1)" .
    also from scan_loop_sub[OF sl] have "\<dots> \<subseteq># mset md_files + mset (pending e (butlast stack))
         + mset (concat (map (\<lambda>(name, node). eligible e (current @ [name]) node) entries))" .
    finally show ?thesis by (simp add: p ac_simps)
  qed
qed

lemma eligible_prefix:
  "(q, md) \<in> set (eligible e p node) \<Longrightarrow> take (length p) q = p"
proof (induction e p node arbitrary: q md rule: eligible.induct)
  case (4 e p entries)
  from "4.prems" obtain name node where
    mem: "(name, node) \<in> set entries" and q: "(q, md) \<in> set (eligible e (p @ [name]) node)"
    by auto
  from "4.IH"[OF mem refl q] have "take (Suc (length p)) q = p @ [name]" by simp
  then have "take (length p) (take (Suc (length p)) q) = take (length p) (p @ [name])" by simp
  then show ?case by (simp add: min_def)
qed (auto simp: accepted_def split: sum.splits)

lemma eligible_entry_name:
  "(q, md) \<in> set (eligible e (p @ [name]) node) \<Longrightarrow> q ! length p = name \<and> length p < length q"
proof -
  assume "(q, md) \<in> set (eligible e (p @ [name]) node)"
  then have t: "take (Suc (length p)) q = p @ [name]" using eligible_prefix by fastforce
  then have "length p < length q"
    by (metis length_append_singleton length_take lessI min_less_iff_conj)
  moreover from t have "q ! length p = (p @ [name]) ! length p"
    by (metis lessI nth_take)
  ultimately show ?thesis by simp
qed

lemma distinct_entries:
  assumes "distinct (map fst entries)"
    and "\<And>name node. (name, node) \<in> set entries \<Longrightarrow> distinct (map fst (eligible e (p @ [name]) node))"
  shows "distinct (map fst (concat (map (\<lambda>(name, node). eligible e (p @ [name]) node) entries)))"
  using assms
proof (induction entries)
  case Nil
  then show ?case by simp
next
  case (Cons a entries)
  obtain name node where a: "a = (name, node)" by (cases a)
  have "fst ` set (eligible e (p @ [name]) node)
      \<inter> fst ` set (concat (map (\<lambda>(name, node). eligible e (p @ [name]) node) entries)) = {}"
  proof (rule ccontr)
    assume "\<not> ?thesis"
    then obtain q md md' name' node' where
      1: "(q, md) \<in> set (eligible e (p @ [name]) node)"
      and 2: "(name', node') \<in> set entries" and 3: "(q, md') \<in> set (eligible e (p @ [name']) node')"
      by fastforce
    from eligible_entry_name[OF 1] eligible_entry_name[OF 3] have "name' = name" by simp
    with 2 Cons.prems(1) a show False by force
  qed
  with Cons a show ?case by simp
qed

lemma distinct_eligible:
  "distinct_names node \<Longrightarrow> distinct (map fst (eligible e p node))"
proof (induction e p node rule: eligible.induct)
  case (4 e p entries)
  then have d: "distinct (map fst entries)"
    and each: "\<And>name node. (name, node) \<in> set entries \<Longrightarrow> distinct_names node"
    by (auto simp: list_all_iff)
  show ?case
    unfolding eligible.simps
    by (rule distinct_entries[OF d]) (use "4.IH" each in blast)
qed (auto simp: accepted_def split: sum.splits)

lemma distinct_of_submultiset:
  assumes "mset xs \<subseteq># mset ys" and "distinct ys"
  shows "distinct xs"
proof -
  have "count (mset xs) a = (if a \<in> set xs then 1 else 0)" for a
  proof (cases "a \<in> set xs")
    case True
    then have "1 \<le> count (mset xs) a" by (simp add: Suc_le_eq)
    moreover have "count (mset xs) a \<le> count (mset ys) a"
      using assms(1) by (rule mset_subset_eq_count)
    moreover have "count (mset ys) a \<le> 1"
      using assms(2) by (simp add: distinct_count_atmost_1)
    ultimately have "count (mset xs) a = 1" by linarith
    with True show ?thesis by simp
  next
    case False
    then show ?thesis by (simp add: count_mset_0_iff)
  qed
  then show ?thesis by (simp add: distinct_count_atmost_1)
qed

lemma collect_returns:
  assumes "listable tree" and "distinct_names tree"
  shows "\<exists>files skipped. collect_md_files e tree directory max_files = Inr (files, skipped)"
proof -
  from assms(1) have "all_listable [(directory, tree)]" by (simp add: all_listable_def)
  from walk_returns[OF this] obtain m s k where
    w: "walk e (target_of max_files) ([], [], [(directory, tree)]) = Inr (m, s, k)"
    by (metis prod_cases3)
  from walk_sub[OF w] have "mset m \<subseteq># mset (eligible e directory tree)"
    by (simp add: pending_def)
  then have "mset (map fst m) \<subseteq># mset (map fst (eligible e directory tree))"
    by (metis image_mset_subseteq_mono mset_map)
  with distinct_eligible[OF assms(2)] have "distinct (map fst m)"
    by (metis distinct_of_submultiset)
  with w show ?thesis by (simp add: collect_md_files_def list_sort_def)
qed

lemma try_file_error:
  "try_file e p node md_files skipped = Inl err \<Longrightarrow> err = OSError \<or> err = UnicodeDecodeError"
  by (auto simp: try_file_def split: option.splits sum.splits error.splits
      dest: MarkdownFile_error)

lemma scan_loop_error:
  "scan_loop e target current entries st = Inl err \<Longrightarrow> err = OSError \<or> err = UnicodeDecodeError"
proof (induction e target current entries st rule: scan_loop.induct)
  case (1 e target current st)
  then show ?case by simp
next
  case (2 e target current name node rest md_files skipped stack)
  show ?case
  proof (cases "is_dir node")
    case True
    with 2 show ?thesis by simp
  next
    case False
    show ?thesis
    proof (cases "try_file e (current @ [name]) node md_files skipped")
      case (Inl x)
      with False "2.prems" try_file_error[OF Inl] show ?thesis by simp
    next
      case (Inr ms)
      obtain m s where ms: "ms = (m, s)" by (cases ms)
      with False Inr "2.prems" "2.IH"(2)[OF False Inr ms[symmetric]] show ?thesis
        by (auto split: if_splits)
    qed
  qed
qed

lemma walk_error:
  "walk e target st = Inl err \<Longrightarrow> err = OSError \<or> err = UnicodeDecodeError"
proof (induction e target st rule: walk.induct)
  case (1 e target md_files skipped stack)
  show ?case
  proof (cases "stack \<noteq> [] \<and> below (length md_files) target")
    case False
    with "1.prems" show ?thesis by (auto simp: walk.simps)
  next
    case True
    obtain current node where l: "last stack = (current, node)" by (cases "last stack")
    show ?thesis
    proof (cases "scandir node")
      case None
      with True l "1.prems" show ?thesis by (simp add: walk.simps[of _ _ md_files])
    next
      case (Some entries)
      show ?thesis
      proof (cases "scan_loop e target current entries (md_files, skipped, butlast stack)")
        case (Inl x)
        with True l Some "1.prems" have "err = x" by (simp add: walk.simps[of _ _ md_files])
        with scan_loop_error[OF Inl] show ?thesis by simp
      next
        case (Inr st')
        with True l Some "1.prems" have "walk e target st' = Inl err"
          by (simp add: walk.simps[of _ _ md_files])
        from "1.IH"[OF True l[symmetric] Some Inr this] show ?thesis .
      qed
    qed
  qed
qed

lemma pending_rejected_snoc:
  "pending_rejected e (stack @ [(p, node)]) = pending_rejected e stack @ rejected e p node"
  by (simp add: pending_rejected_def)

lemma try_file_readable:
  "try_file e p node md_files skipped = Inr ms \<Longrightarrow> \<not> is_dir node \<Longrightarrow> readable node"
proof (cases node)
  case (FaultyFile s f)
  assume "try_file e p node md_files skipped = Inr ms"
  with FaultyFile have "MarkdownFile e (Faulty s f) \<noteq> Inl UnicodeDecodeError"
    and "MarkdownFile e (Faulty s f) \<noteq> Inl OSError"
    by (auto simp: try_file_def)
  with FaultyFile show ?thesis using MarkdownFile_faulty by auto
qed (auto simp: try_file_def)

lemma scan_loop_None_listable:
  "scan_loop e None current entries (md_files, skipped, stack) = Inr (m, s, k)
   \<Longrightarrow> all_listable k
   \<Longrightarrow> all_listable stack \<and> list_all (\<lambda>(name, node). readable node) entries"
proof (induction entries arbitrary: md_files skipped stack)
  case Nil
  then show ?case by simp
next
  case (Cons a entries)
  obtain name node where a: "a = (name, node)" by (cases a)
  show ?case
  proof (cases "is_dir node")
    case True
    with Cons.prems a have
      "scan_loop e None current entries (md_files, skipped, stack @ [(current @ [name], node)])
         = Inr (m, s, k)" by simp
    from Cons.IH[OF this Cons.prems(2)] True show ?thesis
      by (simp add: a all_listable_snoc readable_dir_listable)
  next
    case False
    with Cons.prems a obtain m1 s1 where
      t: "try_file e (current @ [name]) node md_files skipped = Inr (m1, s1)"
      and r: "scan_loop e None current entries (m1, s1, stack) = Inr (m, s, k)"
      by (auto simp: below_def split: sum.splits)
    from try_file_readable[OF t False] Cons.IH[OF r Cons.prems(2)] show ?thesis by (simp add: a)
  qed
qed

lemma walk_None_listable:
  "walk e None (md_files, skipped, stack) = Inr r \<Longrightarrow> all_listable stack"
proof (induction e "None :: int option" "(md_files, skipped, stack)"
    arbitrary: md_files skipped stack rule: walk.induct)
  case (1 e md_files skipped stack)
  show ?case
  proof (cases "stack = []")
    case True
    then show ?thesis by (simp add: all_listable_def)
  next
    case False
    then have c: "stack \<noteq> [] \<and> below (length md_files) None" by (simp add: below_def)
    obtain current node where l: "last stack = (current, node)" by (cases "last stack")
    from c "1.prems" l obtain entries where sc: "scandir node = Some entries"
      by (auto simp: walk.simps[of _ _ md_files] split: option.splits)
    from c "1.prems" l sc obtain m s k where
      sl: "scan_loop e None current entries (md_files, skipped, butlast stack) = Inr (m, s, k)"
      and w: "walk e None (m, s, k) = Inr r"
      by (auto simp: walk.simps[of _ _ md_files] split: sum.splits)
    from "1.hyps"[OF c l[symmetric] sc sl w] have "all_listable k" .
    from scan_loop_None_listable[OF sl this] have
      bl: "all_listable (butlast stack)" and re: "list_all (\<lambda>(name, node). readable node) entries"
      by simp_all
    from sc re have "listable node" by (cases node) (auto simp: listable_def)
    moreover from False l have "stack = butlast stack @ [(current, node)]"
      by (metis append_butlast_last_id)
    ultimately show ?thesis using bl by (metis all_listable_snoc)
  qed
qed

lemma collect_unreadable:
  assumes "\<not> listable tree"
  shows "collect_md_files e tree directory None = Inl OSError
       \<or> collect_md_files e tree directory None = Inl UnicodeDecodeError"
proof (cases "walk e None ([], [], [(directory, tree)])")
  case (Inl err)
  with walk_error[OF Inl] show ?thesis by (simp add: collect_md_files_def target_of_def)
next
  case (Inr r)
  from walk_None_listable[OF Inr] assms show ?thesis by (simp add: all_listable_def)
qed

lemma scan_loop_skipped:
  "scan_loop e None current entries (md_files, skipped, stack) = Inr (m, s, k)
   \<Longrightarrow> mset s + mset (pending_rejected e k)
       = mset skipped + mset (pending_rejected e stack)
         + mset (concat (map (\<lambda>(name, node). rejected e (current @ [name]) node) entries))"
proof (induction entries arbitrary: md_files skipped stack)
  case Nil
  then show ?case by simp
next
  case (Cons a entries)
  obtain name node where a: "a = (name, node)" by (cases a)
  show ?case
  proof (cases "is_dir node")
    case True
    with Cons.prems a have
      "scan_loop e None current entries (md_files, skipped, stack @ [(current @ [name], node)])
         = Inr (m, s, k)" by simp
    from Cons.IH[OF this] show ?thesis by (simp add: a pending_rejected_snoc)
  next
    case False
    with Cons.prems a obtain m1 s1 where
      t: "try_file e (current @ [name]) node md_files skipped = Inr (m1, s1)"
      and r: "scan_loop e None current entries (m1, s1, stack) = Inr (m, s, k)"
      by (auto simp: below_def split: sum.splits)
    from try_file_sub[OF t False] Cons.IH[OF r] show ?thesis by (simp add: a)
  qed
qed

lemma walk_skipped:
  "walk e None (md_files, skipped, stack) = Inr (m, s, k)
   \<Longrightarrow> mset s = mset skipped + mset (pending_rejected e stack)"
proof (induction e "None :: int option" "(md_files, skipped, stack)"
    arbitrary: md_files skipped stack rule: walk.induct)
  case (1 e md_files skipped stack)
  show ?case
  proof (cases "stack = []")
    case True
    with "1.prems" show ?thesis by (simp add: walk.simps pending_rejected_def)
  next
    case False
    then have c: "stack \<noteq> [] \<and> below (length md_files) None" by (simp add: below_def)
    obtain current node where l: "last stack = (current, node)" by (cases "last stack")
    from c "1.prems" l obtain entries where sc: "scandir node = Some entries"
      by (auto simp: walk.simps[of _ _ md_files] split: option.splits)
    from c "1.prems" l sc obtain m1 s1 k1 where
      sl: "scan_loop e None current entries (md_files, skipped, butlast stack) = Inr (m1, s1, k1)"
      and w: "walk e None (m1, s1, k1) = Inr (m, s, k)"
      by (auto simp: walk.simps[of _ _ md_files] split: sum.splits)
    from sc have node: "node = Directory entries" by (cases node) auto
    from False l have "stack = butlast stack @ [(current, node)]" by (metis append_butlast_last_id)
    then have "pending_rejected e stack = pending_rejected e (butlast stack) @ rejected e current node"
      by (metis pending_rejected_snoc)
    with node have p: "mset (pending_rejected e stack) = mset (pending_rejected e (butlast stack))
        + mset (concat (map (\<lambda>(name, node). rejected e (current @ [name]) node) entries))"
      by simp
    from "1.hyps"[OF c l[symmetric] sc sl w] scan_loop_skipped[OF sl] p show ?thesis by simp
  qed
qed

lemma collect_skipped:
  assumes "collect_md_files e tree directory max_files = Inr (files, skipped)"
    and "target_of max_files = None"
  shows "mset skipped = mset (rejected e directory tree)"
proof -
  from assms(1) obtain md_files stack where
    w: "walk e (target_of max_files) ([], [], [(directory, tree)]) = Inr (md_files, skipped, stack)"
    by (rule collect_Inr)
  from w assms(2) have "mset skipped = mset (pending_rejected e [(directory, tree)])"
    by (auto dest: walk_skipped)
  then show ?thesis by (simp add: pending_rejected_def)
qed

subsection \<open>The sample directories\<close>

lemma blog_eval:
  "collect_md_files sample_env blog_tree [''markdown''] None =
     Inr ([([''markdown'', ''a.md''], alpha_post), ([''markdown'', ''b.md''], beta_post)], [])"
  by code_simp

lemma nested_eval:
  "collect_md_files sample_env nested_tree [''markdown''] None =
     Inr ([([''markdown'', ''a.md''], alpha_post), ([''markdown'', ''b.md''], beta_post),
           ([''markdown'', ''sub'', ''c.md''], gamma_post)],
          [''Skipped markdown/sub/d.txt: Missing date header''])"
  by code_simp

lemma nested_eval_2:
  "collect_md_files sample_env nested_tree [''markdown''] (Some 2) =
     Inr ([([''markdown'', ''a.md''], alpha_post), ([''markdown'', ''b.md''], beta_post)], [])"
  by code_simp

lemma nested_ok: "listable nested_tree \<and> distinct_names nested_tree"
  by code_simp

lemma locked_not_listable: "\<not> listable locked_tree"
  by code_simp

lemma locked_eval: "collect_md_files sample_env locked_tree [''markdown''] None = Inl OSError"
  by code_simp

lemma garbled_not_listable: "\<not> listable garbled_tree"
  by code_simp

lemma garbled_eval:
  "collect_md_files sample_env garbled_tree [''markdown''] None = Inl UnicodeDecodeError"
  by code_simp

lemma blog_not_by_date:
  "\<not> sorted (map date_title_key
       [([''markdown'', ''a.md''], alpha_post), ([''markdown'', ''b.md''], beta_post)])"
  by code_simp

subsection \<open>Order, bound and faults\<close>



text \<open>
  C2. With a positive \<^verbatim>\<open>max_files\<close> of \<open>n\<close> the collector returns at most \<open>n\<close> posts. With
  \<^verbatim>\<open>max_files\<close> unset it returns the eligible posts under the root, each once and no
  other. On a tree without I/O faults the collector does return.
\<close>

theorem collect_bounded_or_all:
  "(0 < n \<and> collect_md_files e tree directory (Some n) = Inr (files, skipped)
      \<longrightarrow> int (length files) \<le> n)
   \<and> (collect_md_files e tree directory None = Inr (files', skipped')
      \<longrightarrow> mset files' = mset (eligible e directory tree))
   \<and> (listable tree \<and> distinct_names tree
      \<longrightarrow> (\<exists>fs sk. collect_md_files e tree directory max_files = Inr (fs, sk)))"
  using collect_at_most collect_every_eligible [of e tree directory None] collect_returns
  by (auto simp: target_of_def)

theorem collect_bounded_or_all_witness:
  "((0::int) < 2
      \<and> collect_md_files sample_env nested_tree [''markdown''] (Some 2) =
          Inr ([([''markdown'', ''a.md''], alpha_post), ([''markdown'', ''b.md''], beta_post)], [])
      \<and> int (length [([''markdown'', ''a.md''], alpha_post), ([''markdown'', ''b.md''], beta_post)]) \<le> 2)
   \<and> (collect_md_files sample_env nested_tree [''markdown''] None =
          Inr ([([''markdown'', ''a.md''], alpha_post), ([''markdown'', ''b.md''], beta_post),
                ([''markdown'', ''sub'', ''c.md''], gamma_post)],
               [''Skipped markdown/sub/d.txt: Missing date header''])
      \<and> mset [([''markdown'', ''a.md''], alpha_post), ([''markdown'', ''b.md''], beta_post),
                ([''markdown'', ''sub'', ''c.md''], gamma_post)]
          = mset (eligible sample_env [''markdown''] nested_tree))
   \<and> (listable nested_tree \<and> distinct_names nested_tree
      \<and> (\<exists>fs sk. collect_md_files sample_env nested_tree [''markdown''] None = Inr (fs, sk)))"
  using collect_bounded_or_all [of 2 sample_env nested_tree "[''markdown'']"
      "[([''markdown'', ''a.md''], alpha_post), ([''markdown'', ''b.md''], beta_post)]" "[]"
      "[([''markdown'', ''a.md''], alpha_post), ([''markdown'', ''b.md''], beta_post),
        ([''markdown'', ''sub'', ''c.md''], gamma_post)]"
      "[''Skipped markdown/sub/d.txt: Missing date header'']" None]
    nested_eval nested_eval_2 nested_ok
  by simp

text \<open>
  C9. \<^verbatim>\<open>max_files = 0\<close> behaves as \<^verbatim>\<open>max_files = None\<close>: the collector returns the eligible
  posts under the root, not zero posts.
\<close>

theorem zero_max_files_is_unlimited:
  "collect_md_files e tree directory (Some 0) = collect_md_files e tree directory None
   \<and> (collect_md_files e tree directory (Some 0) = Inr (files, skipped)
      \<longrightarrow> mset files = mset (eligible e directory tree))"
  using collect_every_eligible [of e tree directory "Some 0"]
  by (simp add: collect_md_files_def target_of_def)

theorem zero_max_files_is_unlimited_witness:
  "collect_md_files sample_env nested_tree [''markdown''] (Some 0) =
     Inr ([([''markdown'', ''a.md''], alpha_post), ([''markdown'', ''b.md''], beta_post),
           ([''markdown'', ''sub'', ''c.md''], gamma_post)],
          [''Skipped markdown/sub/d.txt: Missing date header''])
   \<and> mset [([''markdown'', ''a.md''], alpha_post), ([''markdown'', ''b.md''], beta_post),
           ([''markdown'', ''sub'', ''c.md''], gamma_post)]
       = mset (eligible sample_env [''markdown''] nested_tree)"
  using zero_max_files_is_unlimited [of sample_env nested_tree "[''markdown'']"
      "[([''markdown'', ''a.md''], alpha_post), ([''markdown'', ''b.md''], beta_post),
        ([''markdown'', ''sub'', ''c.md''], gamma_post)]"
      "[''Skipped markdown/sub/d.txt: Missing date header'']"]
    nested_eval
  by simp

text \<open>
  C4, as the code has it. A file that opens, whose header lines the constructor can read
  and that the constructor rejects is recorded as a skip message and never ends the walk:
  on a tree in which every file opens with header lines that can be read and every
  directory lists, the collector returns, and with no bound the skip list holds one message
  for each rejected file and nothing else. No other error of a file is recovered: the
  \<^verbatim>\<open>OSError\<close> of \<^verbatim>\<open>open\<close>, like that of listing a directory, and the exception of reading a
  header line (\<^verbatim>\<open>UnicodeDecodeError\<close> when its bytes do not decode, \<^verbatim>\<open>OSError\<close> when the read
  fails) leave the collector. With no bound, one such file or directory anywhere under the
  root makes the collector raise \<^verbatim>\<open>OSError\<close> or \<^verbatim>\<open>UnicodeDecodeError\<close>.
\<close>

theorem content_errors_skip_io_errors_abort:
  "(listable tree \<and> distinct_names tree
      \<longrightarrow> (\<exists>files skipped. collect_md_files e tree directory max_files = Inr (files, skipped)))
   \<and> (collect_md_files e tree directory None = Inr (files, skipped)
      \<longrightarrow> mset skipped = mset (rejected e directory tree))
   \<and> (\<not> listable tree
      \<longrightarrow> collect_md_files e tree directory None = Inl OSError
          \<or> collect_md_files e tree directory None = Inl UnicodeDecodeError)"
  using collect_returns collect_skipped [of e tree directory None] collect_unreadable
  by (auto simp: target_of_def)

theorem content_errors_skip_io_errors_abort_witness:
  "(listable nested_tree \<and> distinct_names nested_tree
      \<and> (\<exists>files skipped.
            collect_md_files sample_env nested_tree [''markdown''] (Some 2) = Inr (files, skipped)))
   \<and> (collect_md_files sample_env nested_tree [''markdown''] None =
          Inr ([([''markdown'', ''a.md''], alpha_post), ([''markdown'', ''b.md''], beta_post),
                ([''markdown'', ''sub'', ''c.md''], gamma_post)],
               [''Skipped markdown/sub/d.txt: Missing date header''])
      \<and> mset [''Skipped markdown/sub/d.txt: Missing date header'']
          = mset (rejected sample_env [''markdown''] nested_tree))
   \<and> (\<not> listable locked_tree
      \<and> collect_md_files sample_env locked_tree [''markdown''] None = Inl OSError)
   \<and> (\<not> listable garbled_tree
      \<and> collect_md_files sample_env garbled_tree [''markdown''] None = Inl UnicodeDecodeError)"
  using content_errors_skip_io_errors_abort [of nested_tree sample_env "[''markdown'']" "Some 2"
      "[([''markdown'', ''a.md''], alpha_post), ([''markdown'', ''b.md''], beta_post),
        ([''markdown'', ''sub'', ''c.md''], gamma_post)]"
      "[''Skipped markdown/sub/d.txt: Missing date header'']"]
    content_errors_skip_io_errors_abort [of locked_tree sample_env "[''markdown'']" None "[]" "[]"]
    content_errors_skip_io_errors_abort [of garbled_tree sample_env "[''markdown'']" None "[]" "[]"]
    nested_eval nested_ok locked_not_listable locked_eval garbled_not_listable garbled_eval
  by simp

text \<open>
  C4 as the specification states it fails: one file that \<^verbatim>\<open>open\<close> cannot read ends the
  walk with \<^verbatim>\<open>OSError\<close>, and one file whose first chunk does not decode ends it with
  \<^verbatim>\<open>UnicodeDecodeError\<close>, though a well-formed post lies beside each.
\<close>

theorem unreadable_file_counterexample:
  "collect_md_files sample_env
     (Directory [(''a.md'', UnreadableFile), (''b.md'', RegularFile beta_text)])
     [''markdown''] None = Inl OSError
   \<and> collect_md_files sample_env
     (Directory [(''a.md'', FaultyFile [] DecodeFault), (''b.md'', RegularFile beta_text)])
     [''markdown''] None = Inl UnicodeDecodeError"
  by code_simp

text \<open>
  C1. The documentation of \<^verbatim>\<open>collect_md_files\<close> promises an order by publication date,
  then title; \<^verbatim>\<open>md_files.sort()\<close> compares the paths. On the sample blog the post of 2 January
  (\<^verbatim>\<open>a.md\<close>) comes before the post of 1 January (\<^verbatim>\<open>b.md\<close>).
\<close>

theorem sorted_by_path_not_by_date:
  "collect_md_files sample_env blog_tree [''markdown''] None =
     Inr ([([''markdown'', ''a.md''], alpha_post), ([''markdown'', ''b.md''], beta_post)], [])
   \<and> map date_title_key
        [([''markdown'', ''a.md''], alpha_post), ([''markdown'', ''b.md''], beta_post)]
       = [([2023, 1, 2, 0, 0, 0, 0], ''Alpha''), ([2023, 1, 1, 0, 0, 0, 0], ''Beta'')]
   \<and> \<not> sorted (map date_title_key
        [([''markdown'', ''a.md''], alpha_post), ([''markdown'', ''b.md''], beta_post)])"
proof -
  have "map date_title_key
        [([''markdown'', ''a.md''], alpha_post), ([''markdown'', ''b.md''], beta_post)]
       = [([2023, 1, 2, 0, 0, 0, 0], ''Alpha''), ([2023, 1, 1, 0, 0, 0, 0], ''Beta'')]"
    by code_simp
  with blog_eval blog_not_by_date show ?thesis by simp
qed

section \<open>Properties of main\<close>

lemma SubElement_item:
  "SubElement (SubElement (SubElement (Element ''item'' [] None []) ''title'' a) ''description'' b)
     ''pubDate'' c
   = Element ''item'' [] None
       [Element ''title'' [] (Some a) [], Element ''description'' [] (Some b) [],
        Element ''pubDate'' [] (Some c) []]"
  by (simp add: SubElement_def)

lemma append_with_items: "t\<lparr>channel := append (channel t) i\<rparr> = with_items t [i]"
  by (simp add: append_def with_items_def)

lemma with_items_Nil: "with_items t [] = t"
  by (simp add: with_items_def)

lemma with_items_append: "with_items (with_items t xs) ys = with_items t (xs @ ys)"
  by (simp add: with_items_def)

lemma append_item_Inr:
  "content e md = Inr html \<Longrightarrow> append_item e t md = Inr (with_items t [item_of e md])"
  by (simp add: append_item_def Let_def SubElement_item append_with_items item_of_def)

lemma append_item_Inl: "content e md = Inl err \<Longrightarrow> append_item e t md = Inl err"
  by (simp add: append_item_def Let_def)

lemma content_cases:
  "(renders e md \<and> (\<exists>html. content e md = Inr html))
   \<or> (\<not> renders e md \<and> reads md \<and> content e md = Inl (InvalidMarkdownFile (failure e md)))
   \<or> (\<not> renders e md \<and> \<not> reads md
       \<and> (content e md = Inl OSError \<or> content e md = Inl UnicodeDecodeError))"
proof (cases "stream md")
  case (Decodable s)
  then show ?thesis
    by (simp add: renders_def reads_def failure_def content_def split: sum.splits)
next
  case (Faulty s f)
  then show ?thesis
    using fault_error_cases[of f] by (auto simp: renders_def reads_def failure_def content_def)
qed

lemma content_unread:
  "\<not> reads md \<Longrightarrow> content e md = Inl OSError \<or> content e md = Inl UnicodeDecodeError"
proof (cases "stream md")
  case (Decodable s)
  assume "\<not> reads md"
  with Decodable show ?thesis by (simp add: reads_def)
next
  case (Faulty s f)
  with fault_error_cases[of f] show ?thesis by (auto simp: content_def)
qed

lemma append_items_result:
  "list_all (\<lambda>(p, md). reads md) files
   \<Longrightarrow> append_items e files (t, included, errors) =
       Inr (with_items t (map (item_of e) (filter (renders e) (map snd files))),
            included @ map fst (filter (\<lambda>(p, md). renders e md) files),
            errors @ map (\<lambda>(p, md). skipped_message p (failure e md))
                       (filter (\<lambda>(p, md). \<not> renders e md) files))"
proof (induction files arbitrary: t included errors)
  case Nil
  then show ?case by (simp add: with_items_Nil)
next
  case (Cons a files)
  obtain p md where a: "a = (p, md)" by (cases a)
  from Cons.prems a have rd: "reads md" and rest: "list_all (\<lambda>(p, md). reads md) files"
    by simp_all
  show ?case
  proof (cases "renders e md")
    case True
    with content_cases[of e md] obtain html where "content e md = Inr html" by blast
    from append_item_Inr[OF this] True
      Cons.IH[OF rest, of "with_items t [item_of e md]" "included @ [p]" errors]
    show ?thesis by (simp add: a with_items_append)
  next
    case False
    with content_cases[of e md] rd
    have "content e md = Inl (InvalidMarkdownFile (failure e md))" by blast
    from append_item_Inl[OF this] False
      Cons.IH[OF rest, of t included "errors @ [skipped_message p (failure e md)]"]
    show ?thesis by (simp add: a)
  qed
qed

lemma append_items_unread:
  "\<not> list_all (\<lambda>(p, md). reads md) files
   \<Longrightarrow> append_items e files (t, included, errors) = Inl OSError
       \<or> append_items e files (t, included, errors) = Inl UnicodeDecodeError"
proof (induction files arbitrary: t included errors)
  case Nil
  then show ?case by simp
next
  case (Cons a files)
  obtain p md where a: "a = (p, md)" by (cases a)
  show ?case
  proof (cases "reads md")
    case False
    from content_unread[OF False, of e] append_item_Inl[of e md _ t]
    show ?thesis by (auto simp: a)
  next
    case True
    with Cons.prems a have rest: "\<not> list_all (\<lambda>(p, md). reads md) files" by simp
    show ?thesis
    proof (cases "renders e md")
      case r: True
      with content_cases[of e md] obtain html where "content e md = Inr html" by blast
      from append_item_Inr[OF this, of t]
        Cons.IH[OF rest, of "with_items t [item_of e md]" "included @ [p]" errors]
      show ?thesis by (simp add: a)
    next
      case r: False
      with content_cases[of e md] True
      have "content e md = Inl (InvalidMarkdownFile (failure e md))" by blast
      from append_item_Inl[OF this, of t]
        Cons.IH[OF rest, of t included "errors @ [skipped_message p (failure e md)]"]
      show ?thesis by (simp add: a)
    qed
  qed
qed

lemma main_result:
  assumes "collect_md_files e tree directory max_files = Inr (files, skipped)" and "files \<noteq> []"
    and "list_all (\<lambda>(p, md). reads md) files"
  shows "main e tree directory ttl description url max_files =
           Inr (Some (with_items (RssElementTree e ttl description url None)
                        (map (item_of e) (filter (renders e) (map snd files)))),
                map fst (filter (\<lambda>(p, md). renders e md) files),
                skipped @ map (\<lambda>(p, md). skipped_message p (failure e md))
                            (filter (\<lambda>(p, md). \<not> renders e md) files))"
  using assms(1,2) append_items_result[OF assms(3), of e "RssElementTree e ttl description url None" "[]" skipped]
  by (simp add: main_def)

lemma main_unread:
  assumes "collect_md_files e tree directory max_files = Inr (files, skipped)"
    and "\<not> list_all (\<lambda>(p, md). reads md) files"
  shows "main e tree directory ttl description url max_files = Inl OSError
       \<or> main e tree directory ttl description url max_files = Inl UnicodeDecodeError"
proof -
  from assms(2) have "files \<noteq> []" by auto
  with assms(1)
    append_items_unread[OF assms(2), of e "RssElementTree e ttl description url None" "[]" skipped]
  show ?thesis by (auto simp: main_def)
qed

lemma feed_items_with_items:
  "feed_items (with_items t xs) = feed_items t @ filter (\<lambda>c. elem_tag c = ''item'') xs"
  by (simp add: feed_items_def with_items_def)

lemma feed_items_fresh: "feed_items (RssElementTree e ttl description url pd) = []"
  by (simp add: feed_items_def RssElementTree_def Let_def SubElement_def append_def)

lemma filter_item_of: "filter (\<lambda>c. elem_tag c = ''item'') (map (item_of e) mds) = map (item_of e) mds"
  by (induction mds) (simp_all add: item_of_def)

lemma content_failure:
  "stream_read (stream md) = Inr input \<Longrightarrow> markdown e input = Inl err
   \<Longrightarrow> \<not> renders e md \<and> failure e md = ''Could not convert to Markdown '' @ err"
  by (simp add: renders_def failure_def content_def)

lemma collect_distinct:
  assumes "collect_md_files e tree directory max_files = Inr (files, skipped)"
  shows "distinct (map fst files)"
proof -
  from assms obtain md_files stack where
    "walk e (target_of max_files) ([], [], [(directory, tree)]) = Inr (md_files, skipped, stack)"
    and d: "distinct (map fst md_files)" and f: "files = sort_key fst md_files"
    by (rule collect_Inr)
  then show ?thesis by (simp add: distinct_fst_sort_key)
qed

lemma MarkdownFile_markdown: "MarkdownFile (e\<lparr>markdown := m\<rparr>) fp = MarkdownFile e fp"
  unfolding MarkdownFile_def
  by (auto split: sum.splits prod.splits option.splits)

lemma try_file_markdown:
  "try_file (e\<lparr>markdown := m\<rparr>) p node md_files skipped = try_file e p node md_files skipped"
  by (simp add: try_file_def MarkdownFile_markdown split: option.splits)

lemma scan_loop_markdown:
  "scan_loop (e\<lparr>markdown := m\<rparr>) target current entries st = scan_loop e target current entries st"
  by (induction e target current entries st rule: scan_loop.induct)
     (auto simp: try_file_markdown split: sum.splits)

lemma walk_markdown: "walk (e\<lparr>markdown := m\<rparr>) target st = walk e target st"
proof (induction e target st rule: walk.induct)
  case (1 e target md_files skipped stack)
  show ?case
  proof (cases "stack \<noteq> [] \<and> below (length md_files) target")
    case False
    then show ?thesis by (auto simp: walk.simps)
  next
    case True
    obtain current node where l: "last stack = (current, node)" by (cases "last stack")
    show ?thesis
    proof (cases "scandir node")
      case None
      with True l show ?thesis by (simp add: walk.simps[of _ _ md_files])
    next
      case (Some entries)
      show ?thesis
      proof (cases "scan_loop e target current entries (md_files, skipped, butlast stack)")
        case (Inl err)
        with True l Some show ?thesis
          by (simp add: walk.simps[of _ _ md_files] scan_loop_markdown)
      next
        case (Inr st')
        from "1.IH"[OF True l[symmetric] Some Inr] True l Some Inr show ?thesis
          by (simp add: walk.simps[of _ _ md_files] scan_loop_markdown)
      qed
    qed
  qed
qed

lemma collect_markdown:
  "collect_md_files (e\<lparr>markdown := m\<rparr>) tree directory max_files
     = collect_md_files e tree directory max_files"
  by (simp add: collect_md_files_def walk_markdown)

lemma render_failure_in_main:
  assumes c: "collect_md_files e tree directory max_files = Inr (files, skipped)"
    and mem: "(p, md) \<in> set files"
    and rd: "stream_read (stream md) = Inr input"
    and fl: "markdown e input = Inl err"
    and m: "main e tree directory ttl description url max_files = Inr (Some t, included, errors)"
  shows "\<not> renders e md
         \<and> p \<notin> set included
         \<and> skipped_message p (''Could not convert to Markdown '' @ err) \<in> set errors
         \<and> t = with_items (RssElementTree e ttl description url None)
                 (map (item_of e) (filter (renders e) (map snd files)))
         \<and> feed_items t = map (item_of e) (filter (renders e) (map snd files))"
proof -
  from mem have ne: "files \<noteq> []" by auto
  from content_failure[OF rd fl] have
    nr: "\<not> renders e md" and f: "failure e md = ''Could not convert to Markdown '' @ err"
    by simp_all
  have all: "list_all (\<lambda>(p, md). reads md) files"
  proof (rule ccontr)
    assume "\<not> ?thesis"
    from main_unread[OF c this, of ttl description url] m show False by auto
  qed
  let ?included = "map fst (filter (\<lambda>(p, md). renders e md) files)"
  let ?errors = "skipped @ map (\<lambda>(p, md). skipped_message p (failure e md))
                            (filter (\<lambda>(p, md). \<not> renders e md) files)"
  from main_result[OF c ne all] m have
    t: "t = with_items (RssElementTree e ttl description url None)
              (map (item_of e) (filter (renders e) (map snd files)))"
    and i: "included = ?included" and er: "errors = ?errors"
    by simp_all
  have "p \<notin> set ?included"
  proof
    assume "p \<in> set ?included"
    then obtain md' where in': "(p, md') \<in> set files" and r: "renders e md'" by auto
    from collect_distinct[OF c] mem in' have "md' = md"
      by (meson eq_key_imp_eq_value)
    with r nr show False by simp
  qed
  moreover from mem nr f have
    "skipped_message p (''Could not convert to Markdown '' @ err) \<in> set ?errors"
    by force
  moreover have "feed_items t = map (item_of e) (filter (renders e) (map snd files))"
    by (simp add: t feed_items_with_items feed_items_fresh filter_item_of)
  ultimately show ?thesis using nr i er t by simp
qed

text \<open>
  C3, as the code has it. Rendering is not part of collecting: the collector returns the
  same posts whatever the external program does, so a file with good headers is among
  them, and counts towards \<^verbatim>\<open>max_files\<close>, whether or not it renders. When \<^verbatim>\<open>main\<close> then
  appends such a post and the external program fails with the diagnostic \<open>err\<close>, the feed
  that \<^verbatim>\<open>main\<close> returns is the new tree with one item for each collected post that renders,
  in the order of the collector, and nothing else; the path is not among the included
  files; and the message \<^verbatim>\<open>Skipped <path>: Could not convert to Markdown <err>\<close> is among the
  errors. \<^verbatim>\<open>main\<close> does return a feed when the collector returns posts whose streams can all
  be read in full; one collected stream that cannot makes it raise the exception of the
  read, \<^verbatim>\<open>OSError\<close> or \<^verbatim>\<open>UnicodeDecodeError\<close>.
\<close>

theorem render_failure_is_skipped_by_main:
  "collect_md_files (e\<lparr>markdown := m\<rparr>) tree directory max_files
     = collect_md_files e tree directory max_files
   \<and> (collect_md_files e tree directory max_files = Inr (files, skipped)
        \<and> (p, md) \<in> set files
        \<and> stream_read (stream md) = Inr input \<and> markdown e input = Inl err
        \<and> main e tree directory ttl description url max_files = Inr (Some t, included, errors)
      \<longrightarrow> \<not> renders e md
          \<and> p \<notin> set included
          \<and> skipped_message p (''Could not convert to Markdown '' @ err) \<in> set errors
          \<and> t = with_items (RssElementTree e ttl description url None)
                  (map (item_of e) (filter (renders e) (map snd files)))
          \<and> feed_items t = map (item_of e) (filter (renders e) (map snd files)))
   \<and> (collect_md_files e tree directory max_files = Inr (files, skipped) \<and> files \<noteq> []
      \<longrightarrow> (if list_all (\<lambda>(q, f). reads f) files
           then \<exists>t' included' errors'.
                  main e tree directory ttl description url max_files
                    = Inr (Some t', included', errors')
           else main e tree directory ttl description url max_files = Inl OSError
                \<or> main e tree directory ttl description url max_files
                    = Inl UnicodeDecodeError))"
proof -
  have indep: "collect_md_files (e\<lparr>markdown := m\<rparr>) tree directory max_files
          = collect_md_files e tree directory max_files"
    by (rule collect_markdown)
  have skip: "collect_md_files e tree directory max_files = Inr (files, skipped)
        \<and> (p, md) \<in> set files
        \<and> stream_read (stream md) = Inr input \<and> markdown e input = Inl err
        \<and> main e tree directory ttl description url max_files = Inr (Some t, included, errors)
      \<longrightarrow> \<not> renders e md
          \<and> p \<notin> set included
          \<and> skipped_message p (''Could not convert to Markdown '' @ err) \<in> set errors
          \<and> t = with_items (RssElementTree e ttl description url None)
                  (map (item_of e) (filter (renders e) (map snd files)))
          \<and> feed_items t = map (item_of e) (filter (renders e) (map snd files))"
    using render_failure_in_main by blast
  have returns: "collect_md_files e tree directory max_files = Inr (files, skipped) \<and> files \<noteq> []
      \<longrightarrow> (if list_all (\<lambda>(q, f). reads f) files
           then \<exists>t' included' errors'.
                  main e tree directory ttl description url max_files
                    = Inr (Some t', included', errors')
           else main e tree directory ttl description url max_files = Inl OSError
                \<or> main e tree directory ttl description url max_files
                    = Inl UnicodeDecodeError)"
  proof
    assume a: "collect_md_files e tree directory max_files = Inr (files, skipped) \<and> files \<noteq> []"
    show "if list_all (\<lambda>(q, f). reads f) files
          then \<exists>t' included' errors'.
                 main e tree directory ttl description url max_files
                   = Inr (Some t', included', errors')
          else main e tree directory ttl description url max_files = Inl OSError
               \<or> main e tree directory ttl description url max_files
                   = Inl UnicodeDecodeError"
    proof (cases "list_all (\<lambda>(q, f). reads f) files")
      case True
      with a main_result[of e tree directory max_files files skipped ttl description url]
      show ?thesis by simp
    next
      case False
      with a main_unread[of e tree directory max_files files skipped ttl description url]
      show ?thesis by simp
    qed
  qed
  show ?thesis by (rule conjI[OF indep conjI[OF skip returns]])
qed

lemma nul_eval:
  "collect_md_files sample_env nul_tree [''markdown''] (Some 1) =
     Inr ([([''markdown'', ''a.md''], delta_post)], [])"
  by code_simp

lemma nul_read: "stream_read (stream delta_post) = Inr nul_text"
  by (simp add: delta_post_def)

lemma nul_render: "markdown sample_env nul_text = Inl ''bad input''"
  by code_simp

lemma nul_main:
  "main sample_env nul_tree [''markdown''] ''T'' ''D'' ''https://x/'' (Some 1) =
     Inr (Some (RssElementTree sample_env ''T'' ''D'' ''https://x/'' None), [],
          [''Skipped markdown/a.md: Could not convert to Markdown bad input''])"
  by code_simp

lemma truncated_eval:
  "collect_md_files sample_env truncated_tree [''markdown''] None =
     Inr ([([''markdown'', ''a.md''], truncated_post), ([''markdown'', ''b.md''], beta_post)], [])"
  by code_simp

lemma truncated_main:
  "main sample_env truncated_tree [''markdown''] ''T'' ''D'' ''https://x/'' None
     = Inl UnicodeDecodeError"
  by code_simp

theorem render_failure_is_skipped_by_main_witness:
  "collect_md_files (sample_env\<lparr>markdown := Inr\<rparr>) nul_tree [''markdown''] (Some 1) =
     Inr ([([''markdown'', ''a.md''], delta_post)], [])
   \<and> (collect_md_files sample_env nul_tree [''markdown''] (Some 1) =
         Inr ([([''markdown'', ''a.md''], delta_post)], [])
      \<and> ([''markdown'', ''a.md''], delta_post) \<in> set [([''markdown'', ''a.md''], delta_post)]
      \<and> stream_read (stream delta_post) = Inr nul_text
      \<and> markdown sample_env nul_text = Inl ''bad input''
      \<and> main sample_env nul_tree [''markdown''] ''T'' ''D'' ''https://x/'' (Some 1) =
          Inr (Some (RssElementTree sample_env ''T'' ''D'' ''https://x/'' None), [],
               [''Skipped markdown/a.md: Could not convert to Markdown bad input''])
      \<and> \<not> renders sample_env delta_post
      \<and> [''markdown'', ''a.md''] \<notin> set ([] :: path list)
      \<and> skipped_message [''markdown'', ''a.md''] (''Could not convert to Markdown '' @ ''bad input'')
          \<in> set [''Skipped markdown/a.md: Could not convert to Markdown bad input'']
      \<and> feed_items (RssElementTree sample_env ''T'' ''D'' ''https://x/'' None) = [])
   \<and> (list_all (\<lambda>(q, f). reads f) [([''markdown'', ''a.md''], delta_post)]
      \<and> (\<exists>t' included' errors'.
            main sample_env nul_tree [''markdown''] ''T'' ''D'' ''https://x/'' (Some 1)
              = Inr (Some t', included', errors')))
   \<and> (collect_md_files sample_env truncated_tree [''markdown''] None =
         Inr ([([''markdown'', ''a.md''], truncated_post), ([''markdown'', ''b.md''], beta_post)], [])
      \<and> \<not> list_all (\<lambda>(q, f). reads f)
            [([''markdown'', ''a.md''], truncated_post), ([''markdown'', ''b.md''], beta_post)]
      \<and> main sample_env truncated_tree [''markdown''] ''T'' ''D'' ''https://x/'' None
          = Inl UnicodeDecodeError)"
proof -
  have mem: "([''markdown'', ''a.md''], delta_post) \<in> set [([''markdown'', ''a.md''], delta_post)]"
    by simp
  have rd1: "list_all (\<lambda>(q, f). reads f) [([''markdown'', ''a.md''], delta_post)]"
    by (simp add: reads_def delta_post_def)
  have rd2: "\<not> list_all (\<lambda>(q, f). reads f)
            [([''markdown'', ''a.md''], truncated_post), ([''markdown'', ''b.md''], beta_post)]"
    by (simp add: reads_def truncated_post_def)
  have nr: "renders sample_env delta_post = False"
    using content_failure[OF nul_read nul_render] by simp
  note one = render_failure_is_skipped_by_main
    [where e = sample_env and m = Inr and tree = nul_tree and directory = "[''markdown'']"
       and max_files = "Some 1" and files = "[([''markdown'', ''a.md''], delta_post)]"
       and skipped = "[]" and p = "[''markdown'', ''a.md'']" and md = delta_post
       and input = nul_text and err = "''bad input''" and ttl = "''T''" and description = "''D''"
       and url = "''https://x/''"
       and t = "RssElementTree sample_env ''T'' ''D'' ''https://x/'' None"
       and included = "[]"
       and errors = "[''Skipped markdown/a.md: Could not convert to Markdown bad input'']"]
  from one nul_eval mem nul_read nul_render nul_main rd1 nr
  have a: "collect_md_files (sample_env\<lparr>markdown := Inr\<rparr>) nul_tree [''markdown''] (Some 1) =
       Inr ([([''markdown'', ''a.md''], delta_post)], [])"
    and b: "skipped_message [''markdown'', ''a.md''] (''Could not convert to Markdown '' @ ''bad input'')
          \<in> set [''Skipped markdown/a.md: Could not convert to Markdown bad input'']"
    and c: "feed_items (RssElementTree sample_env ''T'' ''D'' ''https://x/'' None) = []"
    and d: "\<exists>t' included' errors'.
            main sample_env nul_tree [''markdown''] ''T'' ''D'' ''https://x/'' (Some 1)
              = Inr (Some t', included', errors')"
    by simp_all
  from a b c d nul_eval mem nul_read nul_render nul_main rd1 rd2 nr truncated_eval truncated_main
  show ?thesis by simp
qed

text \<open>
  C3 as the specification states it fails: with \<^verbatim>\<open>max_files = 1\<close> the one post the collector
  returns is a file that does not render. It has taken the only slot, the well-formed
  \<^verbatim>\<open>b.md\<close> is never read, and the feed has no item.
\<close>

theorem render_failure_takes_slot_counterexample:
  "collect_md_files sample_env nul_tree [''markdown''] (Some 1) =
     Inr ([([''markdown'', ''a.md''], delta_post)], [])
   \<and> content sample_env delta_post
       = Inl (InvalidMarkdownFile ''Could not convert to Markdown bad input'')
   \<and> main sample_env nul_tree [''markdown''] ''T'' ''D'' ''https://x/'' (Some 1) =
       Inr (Some (RssElementTree sample_env ''T'' ''D'' ''https://x/'' None), [],
            [''Skipped markdown/a.md: Could not convert to Markdown bad input''])"
proof -
  have "content sample_env delta_post
       = Inl (InvalidMarkdownFile ''Could not convert to Markdown bad input'')"
    by code_simp
  with nul_eval nul_main show ?thesis by simp
qed

text \<open>
  C6. When the collector returns no post, \<^verbatim>\<open>main\<close> returns no tree, no included file, and
  one message, which is not empty and begins \<^verbatim>\<open>No markdown files found in\<close>.
\<close>

theorem no_feed_for_empty_collection:
  assumes "collect_md_files e tree directory max_files = Inr ([], skipped)"
  shows "main e tree directory ttl description url max_files
           = Inr (None, [], [no_files_message directory])
         \<and> no_files_message directory \<noteq> []
         \<and> startswith (no_files_message directory) ''No markdown files found in ''"
  using assms by (simp add: main_def no_files_message_def startswith_def)

lemma notes_eval:
  "collect_md_files sample_env notes_tree [''markdown''] None =
     Inr ([], [''Skipped markdown/notes.txt: Missing date header''])"
  by code_simp

theorem no_feed_for_empty_collection_witness:
  "collect_md_files sample_env notes_tree [''markdown''] None =
     Inr ([], [''Skipped markdown/notes.txt: Missing date header''])
   \<and> main sample_env notes_tree [''markdown''] ''T'' ''D'' ''https://x/'' None
       = Inr (None, [], [no_files_message [''markdown'']])
   \<and> no_files_message [''markdown''] \<noteq> []
   \<and> startswith (no_files_message [''markdown'']) ''No markdown files found in ''"
  using no_feed_for_empty_collection [OF notes_eval] notes_eval by simp

lemma append_item_root:
  "append_item e t md = Inr t' \<Longrightarrow> root_tag t' = root_tag t \<and> root_attrib t' = root_attrib t"
  by (auto simp: append_item_def Let_def split: sum.splits)

lemma append_items_root:
  "append_items e files (t, included, errors) = Inr (t', included', errors')
   \<Longrightarrow> root_tag t' = root_tag t \<and> root_attrib t' = root_attrib t"
proof (induction files arbitrary: t included errors)
  case Nil
  then show ?case by simp
next
  case (Cons a files)
  obtain p md where a: "a = (p, md)" by (cases a)
  show ?case
  proof (cases "append_item e t md")
    case (Inl err)
    with Cons.prems a Cons.IH show ?thesis by (auto split: error.splits)
  next
    case (Inr t1)
    with Cons.prems a have
      "append_items e files (t1, included @ [p], errors) = Inr (t', included', errors')"
      by simp
    from Cons.IH[OF this] append_item_root[OF Inr] show ?thesis by simp
  qed
qed

text \<open>
  C7. In every feed that \<^verbatim>\<open>main\<close> returns the root element is \<^verbatim>\<open>rss\<close> with \<^verbatim>\<open>version="2.0"\<close>,
  but its second attribute is named \<^verbatim>\<open>xlmns:atom\<close>: the root has no attribute \<^verbatim>\<open>xmlns:atom\<close>,
  while the channel holds an \<^verbatim>\<open>atom:link\<close> element.
\<close>

theorem rss_root_attribute_is_misspelt:
  assumes "main e tree directory ttl description url max_files = Inr (Some t, included, errors)"
  shows "elem_tag (getroot t) = ''rss''
         \<and> elem_attrib (getroot t)
             = [(''version'', ''2.0''), (''xlmns:atom'', ''http://www.w3.org/2005/Atom'')]
         \<and> map_of (elem_attrib (getroot t)) ''xmlns:atom'' = None"
proof -
  from assms obtain files skipped where
    "append_items e files (RssElementTree e ttl description url None, [], skipped)
       = Inr (t, included, errors)"
    by (auto simp: main_def split: sum.splits if_splits prod.splits)
  from append_items_root[OF this] show ?thesis
    by (simp add: getroot_def RssElementTree_def Let_def)
qed

lemma blog_main:
  "main sample_env blog_tree [''markdown''] ''T'' ''D'' ''https://x/'' None =
     Inr (Some blog_feed, [[''markdown'', ''a.md''], [''markdown'', ''b.md'']], [])"
  by code_simp

theorem rss_root_attribute_is_misspelt_witness:
  "main sample_env blog_tree [''markdown''] ''T'' ''D'' ''https://x/'' None =
     Inr (Some blog_feed, [[''markdown'', ''a.md''], [''markdown'', ''b.md'']], [])
   \<and> elem_tag (getroot blog_feed) = ''rss''
   \<and> elem_attrib (getroot blog_feed)
       = [(''version'', ''2.0''), (''xlmns:atom'', ''http://www.w3.org/2005/Atom'')]
   \<and> map_of (elem_attrib (getroot blog_feed)) ''xmlns:atom'' = None"
  using rss_root_attribute_is_misspelt [OF blog_main] blog_main by simp

end
